theory Spec2Isabelle
  imports Complex_Main "HOL-Library.Log_Nat"
begin

section \<open>JavaScript strings\<close>

text \<open>
  A JavaScript string is a sequence of UTF-16 code units; a code unit is modelled by its
  number. \<open>str\<close> turns an ASCII literal of the source into such a sequence. The bullet
  glyphs of the source lie outside ASCII and are given by their code points.
\<close>

type_synonym jsstring = "nat list"

definition str :: "string \<Rightarrow> jsstring" where
  "str s = map of_char s"

definition LF :: nat where
  "LF = 10"

text \<open>
  The class \<open>\s\<close> of a regular expression, which is also what \<open>trim\<close> and \<open>trimEnd\<close>
  strip: the white space and line terminator code units of ECMAScript.
\<close>

definition isSpace :: "nat \<Rightarrow> bool" where
  "isSpace c \<longleftrightarrow>
     (9 \<le> c \<and> c \<le> 13) \<or> c = 32 \<or> c = 160 \<or> c = 5760 \<or> (8192 \<le> c \<and> c \<le> 8202)
     \<or> c = 8232 \<or> c = 8233 \<or> c = 8239 \<or> c = 8287 \<or> c = 12288 \<or> c = 65279"

definition isLowerAZ :: "nat \<Rightarrow> bool" where
  "isLowerAZ c \<longleftrightarrow> 97 \<le> c \<and> c \<le> 122"

definition isUpperAZ :: "nat \<Rightarrow> bool" where
  "isUpperAZ c \<longleftrightarrow> 65 \<le> c \<and> c \<le> 90"

definition isDigit :: "nat \<Rightarrow> bool" where
  "isDigit c \<longleftrightarrow> 48 \<le> c \<and> c \<le> 57"

text \<open>The class \<open>\w\<close>, which decides where \<open>\b\<close> holds.\<close>

definition isWordChar :: "nat \<Rightarrow> bool" where
  "isWordChar c \<longleftrightarrow> isLowerAZ c \<or> isUpperAZ c \<or> isDigit c \<or> c = 95"

text \<open>
  The case mappings of Unicode are tables of the host, not of the program. Inside ASCII
  they are written out here. Beyond ASCII they are an argument of the model, so that what
  is proved holds for the tables of every host: \<open>lowerText h s\<close> is \<open>s.toLowerCase()\<close> for a
  string \<open>s\<close> that has a code unit above 127 (the mapping works on code points and looks at
  the context, so it is given for the whole string), and \<open>upperUnit h c\<close> is
  \<open>toUpperCase\<close> of the string made of the one code unit \<open>c\<close> above 127.
\<close>

record Host =
  lowerText :: "jsstring \<Rightarrow> jsstring"
  upperUnit :: "nat \<Rightarrow> jsstring"

definition isAscii :: "nat \<Rightarrow> bool" where
  "isAscii c \<longleftrightarrow> c < 128"

definition lowerAscii :: "nat \<Rightarrow> nat" where
  "lowerAscii c = (if isUpperAZ c then c + 32 else c)"

definition toLowerCase :: "Host \<Rightarrow> jsstring \<Rightarrow> jsstring" where
  "toLowerCase h s = (if list_all isAscii s then map lowerAscii s else lowerText h s)"

text \<open>
  The canonical form under which a regular expression with flag \<open>i\<close> (and without flag
  \<open>u\<close>) compares code units: the upper case of the code unit when that is one code unit,
  except that a code unit above 127 is never folded into ASCII.
\<close>

definition canonicalize :: "Host \<Rightarrow> nat \<Rightarrow> nat" where
  "canonicalize h ch =
     (if isAscii ch then (if isLowerAZ ch then ch - 32 else ch)
      else (case upperUnit h ch of
              [cu] \<Rightarrow> if cu < 128 then ch else cu
            | _ \<Rightarrow> ch))"

text \<open>
  Two hosts for the samples. The first has no letter above 127 in its tables. The second
  has the letters of Latin-1 as Unicode has them: U+00C0 to U+00DE, without the sign
  U+00D7, are the capitals of U+00E0 to U+00FE; the capital of U+00FF is U+0178, that of
  the micro sign U+00B5 is U+039C, and the upper case of U+00DF is two code units. Of the
  code units above 255 it has the long s, U+017F, whose capital is the ASCII letter S,
  and leaves the others alone.
\<close>

definition asciiHost :: Host where
  "asciiHost = \<lparr>lowerText = map lowerAscii, upperUnit = (\<lambda>c. [c])\<rparr>"

definition latin1Host :: Host where
  "latin1Host =
     \<lparr>lowerText = map (\<lambda>c. if isUpperAZ c \<or> (192 \<le> c \<and> c \<le> 222 \<and> c \<noteq> 215) then c + 32 else c),
      upperUnit = (\<lambda>c. if 224 \<le> c \<and> c \<le> 254 \<and> c \<noteq> 247 then [c - 32]
                      else if c = 255 then [376]
                      else if c = 181 then [924]
                      else if c = 223 then [83, 83]
                      else if c = 383 then [83]
                      else [c])\<rparr>"

definition trimStart :: "jsstring \<Rightarrow> jsstring" where
  "trimStart s = dropWhile isSpace s"

definition trimEnd :: "jsstring \<Rightarrow> jsstring" where
  "trimEnd s = rev (dropWhile isSpace (rev s))"

definition trim :: "jsstring \<Rightarrow> jsstring" where
  "trim s = trimEnd (trimStart s)"

definition endsWith :: "jsstring \<Rightarrow> nat \<Rightarrow> bool" where
  "endsWith s c \<longleftrightarrow> s \<noteq> [] \<and> last s = c"

text \<open>\<open>xs.slice(a, b)\<close> and \<open>s.substring(a, b)\<close> for indices \<open>0 \<le> a\<close>, \<open>0 \<le> b\<close>.\<close>

definition slice :: "'a list \<Rightarrow> nat \<Rightarrow> nat \<Rightarrow> 'a list" where
  "slice xs a b = drop a (take b xs)"

text \<open>
  \<open>xs.slice(a, b)\<close> and \<open>xs.slice(a)\<close> for integers of either sign: a negative index
  counts from the end, and every index is brought into the range of the array.
\<close>

definition relativeIndex :: "nat \<Rightarrow> int \<Rightarrow> nat" where
  "relativeIndex len i = (if i < 0 then nat (max (int len + i) 0) else min (nat i) len)"

definition jsSlice :: "'a list \<Rightarrow> int \<Rightarrow> int \<Rightarrow> 'a list" where
  "jsSlice xs a b =
     (let k = relativeIndex (length xs) a;
          final = relativeIndex (length xs) b
      in take (final - k) (drop k xs))"

definition jsSliceFrom :: "'a list \<Rightarrow> int \<Rightarrow> 'a list" where
  "jsSliceFrom xs a = drop (relativeIndex (length xs) a) xs"

text \<open>\<open>s.split('\n')\<close>: the pieces between the separators; an empty string gives one empty piece.\<close>

fun splitOn :: "nat \<Rightarrow> jsstring \<Rightarrow> jsstring \<Rightarrow> jsstring list" where
  "splitOn sep cur [] = [cur]"
| "splitOn sep cur (c # cs) =
     (if c = sep then cur # splitOn sep [] cs else splitOn sep (cur @ [c]) cs)"

definition splitLines :: "jsstring \<Rightarrow> jsstring list" where
  "splitLines s = splitOn LF [] s"

text \<open>\<open>xs.join(sep)\<close>.\<close>

fun join :: "jsstring \<Rightarrow> jsstring list \<Rightarrow> jsstring" where
  "join sep [] = []"
| "join sep [x] = x"
| "join sep (x # y # ys) = x @ sep @ join sep (y # ys)"

text \<open>\<open>s.includes(p)\<close>: \<open>p\<close> occurs in \<open>s\<close> as a substring.\<close>

fun includesStr :: "jsstring \<Rightarrow> jsstring \<Rightarrow> bool" where
  "includesStr [] p = (p = [])"
| "includesStr (c # cs) p = (take (length p) (c # cs) = p \<or> includesStr cs p)"

text \<open>The decimal digits of a number, as string concatenation writes a length.\<close>

fun digits :: "nat \<Rightarrow> jsstring" where
  "digits n = (if n < 10 then [48 + n] else digits (n div 10) @ [48 + n mod 10])"

declare digits.simps [simp del]

section \<open>Keyword sets\<close>

record KeywordSet =
  all :: "jsstring list"
  highPriority :: "jsstring list"
  mediumPriority :: "jsstring list"
  lowPriority :: "jsstring list"
  workExperience :: "jsstring list"
  total :: nat

definition emptyKeywordSet :: KeywordSet where
  "emptyKeywordSet =
     \<lparr>all = [], highPriority = [], mediumPriority = [], lowPriority = [],
      workExperience = [], total = 0\<rparr>"

section \<open>The keyword cache\<close>

text \<open>
  \<open>keywordCache\<close> is a \<open>Map\<close>: it keeps its keys in insertion order, \<open>set\<close> on a key it
  holds replaces the value in place, \<open>set\<close> on a new key appends, and \<open>keys().next().value\<close>
  is the key inserted first among those it still holds. It is modelled as an association
  list in insertion order, passed in and returned. Time stamps are the milliseconds of
  \<open>Date.now()\<close>, taken as an argument. The field \<open>keywords\<close> of an entry is \<open>entryKeywords\<close>.
\<close>

record CacheEntry =
  entryKeywords :: KeywordSet
  timestamp :: int

type_synonym cache = "(jsstring \<times> CacheEntry) list"

definition MAX_CACHE_SIZE :: nat where
  "MAX_CACHE_SIZE = 100"

definition CACHE_EXPIRY_MS :: int where
  "CACHE_EXPIRY_MS = 30 * 60 * 1000"

fun mapSet :: "'k \<Rightarrow> 'v \<Rightarrow> ('k \<times> 'v) list \<Rightarrow> ('k \<times> 'v) list" where
  "mapSet k v [] = [(k, v)]"
| "mapSet k v ((k', v') # m) = (if k' = k then (k, v) # m else (k', v') # mapSet k v m)"

definition mapGet :: "('k \<times> 'v) list \<Rightarrow> 'k \<Rightarrow> 'v option" where
  "mapGet m k = map_of m k"

definition mapDelete :: "'k \<Rightarrow> ('k \<times> 'v) list \<Rightarrow> ('k \<times> 'v) list" where
  "mapDelete k m = filter (\<lambda>e. fst e \<noteq> k) m"

definition mapKeys :: "('k \<times> 'v) list \<Rightarrow> 'k list" where
  "mapKeys m = map fst m"

definition getCacheKey :: "jsstring \<Rightarrow> jsstring \<Rightarrow> jsstring" where
  "getCacheKey jobUrl text =
     (if jobUrl \<noteq> [] then jobUrl
      else slice text 0 200 @ str ''_'' @ digits (length text))"

text \<open>A lookup returns the stored keywords or nothing (\<open>null\<close>); it leaves the cache as it is.\<close>

definition getCachedKeywords ::
  "jsstring \<Rightarrow> jsstring \<Rightarrow> int \<Rightarrow> cache \<Rightarrow> KeywordSet option \<times> cache" where
  "getCachedKeywords jobUrl text now c =
     (case mapGet c (getCacheKey jobUrl text) of
        None \<Rightarrow> (None, c)
      | Some cached \<Rightarrow>
          if now - timestamp cached < CACHE_EXPIRY_MS then (Some (entryKeywords cached), c)
          else (None, c))"

definition setCachedKeywords ::
  "jsstring \<Rightarrow> jsstring \<Rightarrow> KeywordSet \<Rightarrow> int \<Rightarrow> cache \<Rightarrow> cache" where
  "setCachedKeywords jobUrl text kws now c =
     (let key = getCacheKey jobUrl text;
          c1 = (if length c \<ge> MAX_CACHE_SIZE
                then (case mapKeys c of [] \<Rightarrow> c | firstKey # _ \<Rightarrow> mapDelete firstKey c)
                else c)
      in mapSet key \<lparr>entryKeywords = kws, timestamp = now\<rparr> c1)"

text \<open>
  The operations on the cache that the module offers: a lookup, a store (both reached
  through \<open>turboExtractKeywords\<close>) and \<open>clearCache\<close>. \<open>runCache\<close> plays a sequence of them.
\<close>

datatype cacheOp =
    Lookup jsstring jsstring int
  | Store jsstring jsstring KeywordSet int
  | ClearCache

fun applyCacheOp :: "cache \<Rightarrow> cacheOp \<Rightarrow> cache" where
  "applyCacheOp c (Lookup jobUrl text now) = snd (getCachedKeywords jobUrl text now c)"
| "applyCacheOp c (Store jobUrl text kws now) = setCachedKeywords jobUrl text kws now c"
| "applyCacheOp c ClearCache = []"

definition runCache :: "cacheOp list \<Rightarrow> cache \<Rightarrow> cache" where
  "runCache ops c = foldl applyCacheOp c ops"

text \<open>
  What every reachable cache satisfies: at most \<open>MAX_CACHE_SIZE\<close> entries, and no key twice
  (a \<open>Map\<close> holds a key once).
\<close>

definition cacheInv :: "cache \<Rightarrow> bool" where
  "cacheInv c \<longleftrightarrow> length c \<le> MAX_CACHE_SIZE \<and> distinct (mapKeys c)"

text \<open>One hundred stores under the job URLs \<open>0\<close>, ..., \<open>99\<close>, into an empty cache.\<close>

definition stores100 :: "cacheOp list" where
  "stores100 = map (\<lambda>i. Store (digits i) [] emptyKeywordSet 0) [0..<100]"

subsection \<open>Properties of the cache\<close>

lemma length_mapSet: "length (mapSet k v m) \<le> Suc (length m)"
  by (induction m) auto

lemma keys_mapSet: "set (mapKeys (mapSet k v m)) = insert k (set (mapKeys m))"
  unfolding mapKeys_def by (induction k v m rule: mapSet.induct) (simp_all add: insert_commute)

lemma distinct_mapSet: "distinct (mapKeys m) \<Longrightarrow> distinct (mapKeys (mapSet k v m))"
proof (induction m)
  case Nil
  then show ?case by (simp add: mapKeys_def)
next
  case (Cons e m)
  obtain k' v' where e: "e = (k', v')" by (cases e)
  have "k' \<noteq> k \<Longrightarrow> k' \<notin> set (mapKeys (mapSet k v m))"
    using Cons.prems e by (simp add: keys_mapSet) (simp add: mapKeys_def)
  then show ?case
    using Cons e by (auto simp: mapKeys_def)
qed

lemma mapSet_new: "k \<notin> set (mapKeys m) \<Longrightarrow> mapSet k v m = m @ [(k, v)]"
  by (induction m) (auto simp: mapKeys_def)

lemma mapDelete_first:
  "distinct (mapKeys ((k, v) # m)) \<Longrightarrow> mapDelete k ((k, v) # m) = m"
proof -
  assume d: "distinct (mapKeys ((k, v) # m))"
  then have "\<forall>e \<in> set m. fst e \<noteq> k"
    by (auto simp: mapKeys_def)
  then have "filter (\<lambda>e. fst e \<noteq> k) m = m"
    by (simp add: filter_id_conv)
  then show ?thesis by (simp add: mapDelete_def)
qed

lemma setCachedKeywords_full:
  assumes "length c \<ge> MAX_CACHE_SIZE" and "distinct (mapKeys c)"
  shows "setCachedKeywords jobUrl text kws now c =
           mapSet (getCacheKey jobUrl text) \<lparr>entryKeywords = kws, timestamp = now\<rparr> (tl c)"
proof (cases c)
  case Nil
  with assms(1) show ?thesis by (simp add: MAX_CACHE_SIZE_def)
next
  case (Cons e m)
  obtain k v where e: "e = (k, v)" by (cases e)
  have "mapDelete k c = m"
    using assms(2) Cons e mapDelete_first[of k v m] by simp
  then show ?thesis
    using assms(1) Cons e by (simp add: setCachedKeywords_def mapKeys_def Let_def)
qed

lemma cacheInv_set: assumes "cacheInv c" shows "cacheInv (setCachedKeywords jobUrl text kws now c)"
proof (cases "length c \<ge> MAX_CACHE_SIZE")
  case True
  have d: "distinct (mapKeys c)" using assms by (simp add: cacheInv_def)
  have len: "length c = MAX_CACHE_SIZE" using assms True by (simp add: cacheInv_def)
  have eq: "setCachedKeywords jobUrl text kws now c =
           mapSet (getCacheKey jobUrl text) \<lparr>entryKeywords = kws, timestamp = now\<rparr> (tl c)"
    using setCachedKeywords_full[OF True d] .
  have "distinct (mapKeys (tl c))" using d by (cases c) (auto simp: mapKeys_def)
  moreover have "length (tl c) < MAX_CACHE_SIZE" using len by (cases c) (auto simp: MAX_CACHE_SIZE_def)
  ultimately show ?thesis
    unfolding eq cacheInv_def
    using length_mapSet[of "getCacheKey jobUrl text" "\<lparr>entryKeywords = kws, timestamp = now\<rparr>" "tl c"]
      distinct_mapSet[of "tl c"]
    by simp
next
  case False
  then have "Suc (length c) \<le> MAX_CACHE_SIZE" by simp
  then have "length (mapSet (getCacheKey jobUrl text) \<lparr>entryKeywords = kws, timestamp = now\<rparr> c)
      \<le> MAX_CACHE_SIZE"
    using length_mapSet[of "getCacheKey jobUrl text" "\<lparr>entryKeywords = kws, timestamp = now\<rparr>" c]
    by (rule_tac le_trans)
  then show ?thesis
    using assms False distinct_mapSet[of c]
    by (simp add: setCachedKeywords_def cacheInv_def Let_def)
qed

lemma cacheInv_apply: "cacheInv c \<Longrightarrow> cacheInv (applyCacheOp c op)"
proof (cases op)
  case (Lookup u t n)
  assume "cacheInv c"
  then show ?thesis using Lookup by (simp add: getCachedKeywords_def split: option.splits)
next
  case (Store u t k n)
  assume "cacheInv c"
  then show ?thesis using Store by (simp add: cacheInv_set)
next
  case ClearCache
  then show ?thesis by (simp add: cacheInv_def mapKeys_def)
qed

lemma cacheInv_run: "cacheInv c \<Longrightarrow> cacheInv (runCache ops c)"
  unfolding runCache_def by (induction ops arbitrary: c) (auto simp: cacheInv_apply)

lemma getCachedKeywords_snd: "snd (getCachedKeywords u t n c) = c"
  by (simp add: getCachedKeywords_def split: option.splits)

text \<open>
  C6. The cache never holds more than 100 entries. A store into a cache that holds 100
  removes the entry inserted first, and only that one, before it sets the new one: the
  cache after the store is the cache without its first entry, with the new entry set.
  A lookup before the store, of the oldest key or of any other, changes nothing: eviction
  follows insertion order, not use. When the stored key is new (a 101st distinct entry),
  the keys afterwards are the old keys without the first, followed by the new key.
\<close>

theorem keywordCache_bounded_fifo:
  "length (runCache ops []) \<le> MAX_CACHE_SIZE \<and>
   (length (runCache ops []) = MAX_CACHE_SIZE \<longrightarrow>
      hd (mapKeys (runCache ops [])) \<notin> set (mapKeys (tl (runCache ops []))) \<and>
      setCachedKeywords jobUrl text kws now
          (snd (getCachedKeywords readUrl readText readNow (runCache ops []))) =
        mapSet (getCacheKey jobUrl text) \<lparr>entryKeywords = kws, timestamp = now\<rparr>
          (tl (runCache ops [])) \<and>
      (getCacheKey jobUrl text \<notin> set (mapKeys (runCache ops [])) \<longrightarrow>
         mapKeys (setCachedKeywords jobUrl text kws now
            (snd (getCachedKeywords readUrl readText readNow (runCache ops [])))) =
          tl (mapKeys (runCache ops [])) @ [getCacheKey jobUrl text]))"
proof -
  define c where "c = runCache ops []"
  have inv: "cacheInv c"
    unfolding c_def by (rule cacheInv_run) (simp add: cacheInv_def mapKeys_def)
  have bound: "length c \<le> MAX_CACHE_SIZE" and d: "distinct (mapKeys c)"
    using inv by (simp_all add: cacheInv_def)
  have full: "hd (mapKeys c) \<notin> set (mapKeys (tl c)) \<and>
      setCachedKeywords jobUrl text kws now (snd (getCachedKeywords readUrl readText readNow c)) =
        mapSet (getCacheKey jobUrl text) \<lparr>entryKeywords = kws, timestamp = now\<rparr> (tl c) \<and>
      (getCacheKey jobUrl text \<notin> set (mapKeys c) \<longrightarrow>
         mapKeys (setCachedKeywords jobUrl text kws now
            (snd (getCachedKeywords readUrl readText readNow c))) =
          tl (mapKeys c) @ [getCacheKey jobUrl text])"
    if len: "length c = MAX_CACHE_SIZE"
  proof -
    have ne: "c \<noteq> []" using len by (auto simp: MAX_CACHE_SIZE_def)
    have a: "hd (mapKeys c) \<notin> set (mapKeys (tl c))"
      using d ne by (cases c) (auto simp: mapKeys_def)
    have b: "setCachedKeywords jobUrl text kws now c =
        mapSet (getCacheKey jobUrl text) \<lparr>entryKeywords = kws, timestamp = now\<rparr> (tl c)"
      using setCachedKeywords_full[of c] len d by simp
    have e: "mapKeys (setCachedKeywords jobUrl text kws now c) =
          tl (mapKeys c) @ [getCacheKey jobUrl text]"
      if new: "getCacheKey jobUrl text \<notin> set (mapKeys c)"
    proof -
      have "getCacheKey jobUrl text \<notin> set (mapKeys (tl c))"
        using new ne by (cases c) (auto simp: mapKeys_def)
      then show ?thesis
        unfolding b by (simp add: mapSet_new) (simp add: mapKeys_def map_tl)
    qed
    show ?thesis using a b e by (simp add: getCachedKeywords_snd)
  qed
  show ?thesis using bound full unfolding c_def by blast
qed

lemma stores100_keys: "mapKeys (runCache stores100 []) = map digits [0..<100]"
  by code_simp

theorem keywordCache_bounded_fifo_witness:
  "length (runCache stores100 []) = MAX_CACHE_SIZE \<and>
   getCacheKey (str ''https://jobs.example/101'') [] \<notin> set (mapKeys (runCache stores100 [])) \<and>
   mapKeys (setCachedKeywords (str ''https://jobs.example/101'') [] emptyKeywordSet 5
      (snd (getCachedKeywords (digits 0) [] 1 (runCache stores100 [])))) =
     map digits [1..<100] @ [str ''https://jobs.example/101'']"
proof -
  have len: "length (runCache stores100 []) = MAX_CACHE_SIZE"
  proof -
    have "length (runCache stores100 []) = length (mapKeys (runCache stores100 []))"
      by (simp add: mapKeys_def)
    then show ?thesis
      by (simp add: stores100_keys MAX_CACHE_SIZE_def)
  qed
  have key: "getCacheKey (str ''https://jobs.example/101'') [] = str ''https://jobs.example/101''"
    by (simp add: getCacheKey_def str_def)
  have "str ''https://jobs.example/101'' \<notin> set (map digits [0..<100])"
    by code_simp
  then have new: "getCacheKey (str ''https://jobs.example/101'') [] \<notin> set (mapKeys (runCache stores100 []))"
    by (simp add: key stores100_keys)
  have tl: "tl (map digits [0..<100]) = map digits [1..<100]"
    by code_simp
  have "mapKeys (setCachedKeywords (str ''https://jobs.example/101'') [] emptyKeywordSet 5
      (snd (getCachedKeywords (digits 0) [] 1 (runCache stores100 [])))) =
     tl (mapKeys (runCache stores100 [])) @ [getCacheKey (str ''https://jobs.example/101'') []]"
    using keywordCache_bounded_fifo [of stores100 "str ''https://jobs.example/101''" "[]"
        emptyKeywordSet 5 "digits 0" "[]" 1] len new
    by blast
  then have res: "mapKeys (setCachedKeywords (str ''https://jobs.example/101'') [] emptyKeywordSet 5
      (snd (getCachedKeywords (digits 0) [] 1 (runCache stores100 [])))) =
     map digits [1..<100] @ [str ''https://jobs.example/101'']"
    by (simp only: stores100_keys tl key)
  show ?thesis
    by (intro conjI) (rule len, rule new, rule res)
qed

section \<open>Numbers\<close>

text \<open>
  A JavaScript number is an IEEE 754 double. The numbers of this program are lengths,
  which are exact, and scores: non-negative integers, each the result of an addition or a
  multiplication that is rounded to 53 significant bits, ties to even, and that is
  \<open>Infinity\<close> once it leaves the range of the doubles.
\<close>

definition round53 :: "nat \<Rightarrow> nat" where
  "round53 x =
     (let e = floorlog 2 x - 53; q = x div 2 ^ e; r = x mod 2 ^ e
      in if 2 * r > 2 ^ e \<or> (2 * r = 2 ^ e \<and> odd q) then (q + 1) * 2 ^ e else q * 2 ^ e)"

datatype score = Finite nat | Infinity

definition toDouble :: "nat \<Rightarrow> score" where
  "toDouble x = (let r = round53 x in if r \<ge> 2 ^ 1024 then Infinity else Finite r)"

fun plusN :: "score \<Rightarrow> nat \<Rightarrow> score" where
  "plusN (Finite a) k = toDouble (a + k)"
| "plusN Infinity k = Infinity"

text \<open>The product of a score and a positive integer.\<close>

fun timesN :: "score \<Rightarrow> nat \<Rightarrow> score" where
  "timesN (Finite a) k = toDouble (a * k)"
| "timesN Infinity k = Infinity"

text \<open>
  \<open>b - a > 0\<close> for two scores. The difference of two finite doubles has the sign of the
  exact difference, and \<open>Infinity - Infinity\<close> is \<open>NaN\<close>, which a sort comparator reads as 0.
\<close>

fun scoreLess :: "score \<Rightarrow> score \<Rightarrow> bool" where
  "scoreLess (Finite a) (Finite b) = (a < b)"
| "scoreLess (Finite a) Infinity = True"
| "scoreLess Infinity b = False"

text \<open>
  The literals \<open>0.45\<close> and \<open>0.35\<close> denote the doubles nearest to them, which are these
  integers times \<open>2^-54\<close>. \<open>ceilTimes n m\<close> is \<open>Math.ceil(n * d)\<close> for a length \<open>n\<close> and the
  double \<open>d = m * 2^-54\<close>: the exact product is rounded to a double, then raised to an
  integer.
\<close>

definition DOUBLE_0_45 :: nat where
  "DOUBLE_0_45 = 8106479329266893"

definition DOUBLE_0_35 :: nat where
  "DOUBLE_0_35 = 6305039478318694"

definition ceilTimes :: "nat \<Rightarrow> nat \<Rightarrow> nat" where
  "ceilTimes n m = (round53 (n * m) + (2 ^ 54 - 1)) div 2 ^ 54"

section \<open>Keyword extraction\<close>

definition stopWords :: "jsstring list" where
  "stopWords = map str
   [''a'', ''an'', ''the'', ''and'', ''or'', ''but'', ''in'', ''on'', ''at'', ''to'',
    ''for'', ''of'', ''with'', ''by'', ''from'', ''as'', ''is'', ''was'', ''are'',
    ''were'', ''been'', ''be'', ''have'', ''has'', ''had'', ''do'', ''does'', ''did'',
    ''will'', ''would'', ''could'', ''should'', ''may'', ''might'', ''must'', ''can'',
    ''need'', ''this'', ''that'', ''you'', ''your'', ''we'', ''our'', ''they'', ''their'',
    ''work'', ''working'', ''job'', ''position'', ''role'', ''team'', ''company'',
    ''opportunity'', ''looking'', ''seeking'', ''required'', ''requirements'',
    ''preferred'', ''ability'', ''able'', ''experience'', ''years'', ''year'',
    ''including'', ''new'', ''strong'', ''excellent'', ''highly'', ''etc'', ''also'',
    ''via'', ''across'', ''ensure'', ''join'']"

definition softSkillsToExclude :: "jsstring list" where
  "softSkillsToExclude = map str
   [''collaboration'', ''communication'', ''teamwork'', ''leadership'', ''initiative'',
    ''proactive'', ''ownership'', ''responsibility'', ''commitment'', ''passion'',
    ''dedication'', ''motivation'', ''self-starter'', ''detail-oriented'',
    ''problem-solving'', ''critical thinking'', ''time management'', ''adaptability'',
    ''flexibility'', ''creativity'', ''innovation'', ''interpersonal'', ''organizational'',
    ''multitasking'', ''prioritization'', ''reliability'', ''accountability'',
    ''integrity'', ''professionalism'', ''work ethic'', ''positive attitude'',
    ''enthusiasm'', ''driven'', ''dynamic'', ''results-oriented'', ''goal-oriented'',
    ''mission'', ''continuous learning'', ''debugging'', ''testing'', ''documentation'',
    ''system integration'', ''goodjob'', ''sidekiq'', ''canvas'', ''salesforce'']"

definition technicalPatterns :: "jsstring list" where
  "technicalPatterns = map str
   [''python'', ''java'', ''javascript'', ''typescript'', ''ruby'', ''rails'', ''react'',
    ''node'', ''nodejs'', ''aws'', ''azure'', ''gcp'', ''google cloud'', ''kubernetes'',
    ''docker'', ''terraform'', ''ansible'', ''postgresql'', ''postgres'', ''mysql'',
    ''mongodb'', ''redis'', ''elasticsearch'', ''bigquery'', ''spark'', ''airflow'',
    ''kafka'', ''dbt'', ''snowflake'', ''databricks'', ''mlops'', ''devops'', ''ci/cd'',
    ''github'', ''gitlab'', ''jenkins'', ''circleci'', ''agile'', ''scrum'', ''jira'',
    ''confluence'', ''pytorch'', ''tensorflow'', ''scikit-learn'', ''pandas'', ''numpy'',
    ''sql'', ''nosql'', ''graphql'', ''rest'', ''api'', ''microservices'', ''serverless'',
    ''lambda'', ''ecs'', ''eks'', ''s3'', ''rds'', ''machine learning'', ''data science'',
    ''data engineering'', ''deep learning'', ''nlp'', ''llm'', ''genai'', ''ai'', ''ml'',
    ''computer vision'', ''data pipelines'', ''etl'', ''data modeling'', ''tableau'',
    ''power bi'', ''looker'', ''heroku'', ''vercel'', ''netlify'', ''linux'', ''unix'',
    ''bash'', ''git'', ''svn'', ''html'', ''css'', ''sass'', ''webpack'', ''vite'',
    ''nextjs'', ''vue'', ''angular'', ''swift'', ''kotlin'', ''flutter'', ''react native'',
    ''ios'', ''android'', ''mobile'', ''frontend'', ''backend'', ''fullstack'',
    ''full-stack'', ''sre'', ''infrastructure'', ''networking'', ''security'', ''oauth'',
    ''jwt'', ''encryption'', ''compliance'', ''gdpr'', ''hipaa'', ''soc2'', ''pci'',
    ''prince2'', ''cbap'', ''pmp'', ''certified'', ''certification'', ''.net'', ''c#'',
    ''go'', ''scala'']"

definition multiWordPatterns :: "jsstring list" where
  "multiWordPatterns = map str
   [''project management'', ''data science'', ''machine learning'', ''deep learning'',
    ''data engineering'', ''cloud platform'', ''google cloud platform'', ''agile/scrum'',
    ''a/b testing'', ''ci/cd'', ''real-time'', ''data pipelines'', ''ruby on rails'',
    ''node.js'', ''react.js'', ''vue.js'', ''next.js'', ''full stack'', ''full-stack'',
    ''natural language processing'', ''computer vision'', ''artificial intelligence'',
    ''.net core'', ''software development'', ''full-stack development'']"

text \<open>The class \<open>[a-z0-9\s\-\/\.#\+]\<close>; every other code unit is replaced by a space.\<close>

definition keptUnit :: "nat \<Rightarrow> bool" where
  "keptUnit c \<longleftrightarrow>
     isLowerAZ c \<or> isDigit c \<or> isSpace c \<or> c = 45 \<or> c = 47 \<or> c = 46 \<or> c = 35 \<or> c = 43"

definition replaceOther :: "jsstring \<Rightarrow> jsstring" where
  "replaceOther s = map (\<lambda>c. if keptUnit c then c else 32) s"

text \<open>
  \<open>s.split(/\s+/)\<close>: the pieces between the runs of white space. A run at the start or at
  the end leaves an empty piece there. The flag says that the scan is inside a run.
\<close>

fun splitSpaces :: "bool \<Rightarrow> jsstring \<Rightarrow> jsstring \<Rightarrow> jsstring list" where
  "splitSpaces inRun cur [] = [cur]"
| "splitSpaces inRun cur (c # cs) =
     (if isSpace c then
        (if inRun then splitSpaces True cur cs else cur # splitSpaces True [] cs)
      else splitSpaces False (cur @ [c]) cs)"

definition wordsOf :: "Host \<Rightarrow> jsstring \<Rightarrow> jsstring list" where
  "wordsOf h text =
     filter (\<lambda>w. length w \<ge> 2 \<and> w \<notin> set stopWords \<and> w \<notin> set softSkillsToExclude)
       (splitSpaces False [] (replaceOther (toLowerCase h text)))"

text \<open>
  \<open>freq\<close> is a \<open>Map\<close> from terms to scores, in insertion order. \<open>freq.get(w) || 0\<close> is the
  stored score, or 0 when there is none.
\<close>

type_synonym freq = "(jsstring \<times> score) list"

definition getOrZero :: "freq \<Rightarrow> jsstring \<Rightarrow> score" where
  "getOrZero f w = (case mapGet f w of None \<Rightarrow> Finite 0 | Some s \<Rightarrow> s)"

definition boostOf :: "jsstring \<Rightarrow> nat" where
  "boostOf word = (if word \<in> set technicalPatterns then 5 else 1)"

text \<open>The body of the frequency loop, for one word.\<close>

definition countWord :: "freq \<Rightarrow> jsstring \<Rightarrow> freq" where
  "countWord f word =
     (if word \<in> set technicalPatterns \<or> length word > 4 then
        (let count = plusN (getOrZero f word) 1;
             boost = boostOf word
         in mapSet word (timesN count boost) f)
      else f)"

definition frequencyPass :: "jsstring list \<Rightarrow> freq" where
  "frequencyPass ws = foldl countWord [] ws"

definition addPhrase :: "jsstring \<Rightarrow> freq \<Rightarrow> jsstring \<Rightarrow> freq" where
  "addPhrase textLower f phrase =
     (if includesStr textLower phrase then mapSet phrase (plusN (getOrZero f phrase) 10) f
      else f)"

definition phrasePass :: "jsstring \<Rightarrow> freq \<Rightarrow> freq" where
  "phrasePass textLower f = foldl (addPhrase textLower) f multiWordPatterns"

text \<open>
  \<open>sort((a, b) => b[1] - a[1])\<close>: the sort of an array is stable, so the entries come out
  by falling score and, among equal scores, in the order they had. Insertion from the
  right, each entry put before the first entry that is not larger, computes that order.
\<close>

fun insertDesc :: "jsstring \<times> score \<Rightarrow> freq \<Rightarrow> freq" where
  "insertDesc x [] = [x]"
| "insertDesc x (y # ys) =
     (if scoreLess (snd x) (snd y) then y # insertDesc x ys else x # y # ys)"

definition sortDesc :: "freq \<Rightarrow> freq" where
  "sortDesc f = foldr insertDesc f []"

definition sortedKeywords :: "Host \<Rightarrow> jsstring \<Rightarrow> int \<Rightarrow> jsstring list" where
  "sortedKeywords h text maxKeywords =
     jsSlice
       (map fst
          (sortDesc
             (filter (\<lambda>e. fst e \<notin> set softSkillsToExclude)
                (phrasePass (toLowerCase h text) (frequencyPass (wordsOf h text))))))
       0 maxKeywords"

definition highCountOf :: "nat \<Rightarrow> nat" where
  "highCountOf n = min 15 (ceilTimes n DOUBLE_0_45)"

definition medCountOf :: "nat \<Rightarrow> nat" where
  "medCountOf n = min 10 (ceilTimes n DOUBLE_0_35)"

text \<open>\<open>maxKeywords\<close> is an integer, of either sign.\<close>

definition ultraFastExtraction :: "Host \<Rightarrow> jsstring \<Rightarrow> int \<Rightarrow> KeywordSet" where
  "ultraFastExtraction h text maxKeywords =
     (let sorted = sortedKeywords h text maxKeywords;
          highCount = highCountOf (length sorted);
          medCount = medCountOf (length sorted)
      in \<lparr>all = sorted,
          highPriority = slice sorted 0 highCount,
          mediumPriority = slice sorted highCount (highCount + medCount),
          lowPriority = drop (highCount + medCount) sorted,
          workExperience = slice sorted 0 15,
          total = length sorted\<rparr>)"

text \<open>
  \<open>turboExtractKeywords(jobDescription, options)\<close>. The description and each option may be
  absent; an absent option takes its default. The result carries the keyword set and the
  flag \<open>fromCache\<close>, which the early return leaves out; the measured \<open>timing\<close> is not
  modelled. \<open>now\<close> is the clock at the lookup, \<open>later\<close> the clock at the store. The
  keyword set that is returned and the one that is stored are the same value; in the
  code they are two objects that share their arrays, so that a caller who changes an
  array it was given changes the stored one. What the cache holds is a hypothesis
  wherever it matters.
\<close>

record ExtractOptions =
  jobUrlOpt :: "jsstring option"
  maxKeywordsOpt :: "int option"

record ExtractResult =
  keywordSet :: KeywordSet
  fromCache :: "bool option"

definition turboExtractKeywords ::
  "Host \<Rightarrow> jsstring option \<Rightarrow> ExtractOptions \<Rightarrow> int \<Rightarrow> int \<Rightarrow> cache
     \<Rightarrow> ExtractResult \<times> cache" where
  "turboExtractKeywords h jobDescription options now later c =
     (let jobUrl = (case jobUrlOpt options of None \<Rightarrow> [] | Some u \<Rightarrow> u);
          maxKeywords = (case maxKeywordsOpt options of None \<Rightarrow> 35 | Some m \<Rightarrow> m)
      in case jobDescription of
           None \<Rightarrow> (\<lparr>keywordSet = emptyKeywordSet, fromCache = None\<rparr>, c)
         | Some jd \<Rightarrow>
             if jd = [] \<or> length jd < 50
             then (\<lparr>keywordSet = emptyKeywordSet, fromCache = None\<rparr>, c)
             else (case getCachedKeywords jobUrl jd now c of
                     (Some cached, c1) \<Rightarrow> (\<lparr>keywordSet = cached, fromCache = Some True\<rparr>, c1)
                   | (None, c1) \<Rightarrow>
                       (let result = ultraFastExtraction h jd maxKeywords
                        in (\<lparr>keywordSet = result, fromCache = Some False\<rparr>,
                            setCachedKeywords jobUrl jd result later c1))))"

subsection \<open>A sample posting\<close>

definition posting :: jsstring where
  "posting = str ''We need a Python and Kubernetes engineer with AWS experience''"

definition postingUrl :: jsstring where
  "postingUrl = str ''https://jobs.example/42''"

text \<open>The cache after one extraction of the sample posting under its URL, with the default
  \<open>maxKeywords\<close>, from an empty cache at time 0.\<close>

definition cacheAfterFirst :: cache where
  "cacheAfterFirst =
     snd (turboExtractKeywords asciiHost (Some posting)
            \<lparr>jobUrlOpt = Some postingUrl, maxKeywordsOpt = None\<rparr> 0 0 [])"


text \<open>Helpers of the proofs: a lower bound on a score, and the score of a term after
  \<open>n\<close> rounds of the loop body, \<open>(score + 1) * boost\<close>, from no score.\<close>

fun scoreAtLeast :: "score \<Rightarrow> nat \<Rightarrow> bool" where
  "scoreAtLeast (Finite a) k = (k \<le> a)"
| "scoreAtLeast Infinity k = True"

fun scoreAfter :: "nat \<Rightarrow> nat \<Rightarrow> score" where
  "scoreAfter b 0 = Finite 0"
| "scoreAfter b (Suc n) = timesN (plusN (scoreAfter b n) 1) b"

subsection \<open>Rounding\<close>

lemma floorlog_le_53: "x < 2 ^ 53 \<Longrightarrow> floorlog 2 x \<le> 53"
  by (simp add: floorlog_le_iff)

lemma round53_exact: "x < 2 ^ 53 \<Longrightarrow> round53 x = x"
  using floorlog_le_53[of x] by (simp add: round53_def)

lemma round53_lower: "x - x div 2 ^ 52 \<le> round53 x"
proof (cases "floorlog 2 x \<le> 53")
  case True
  then show ?thesis by (simp add: round53_def)
next
  case False
  define e where "e = floorlog 2 x - 53"
  have fl: "floorlog 2 x - 1 = e + 52" using False by (simp add: e_def)
  have xpos: "0 < x" using False by (cases "x = 0") (simp_all add: floorlog_def)
  have "2 ^ (floorlog 2 x - 1) \<le> x"
    using floorlog_bounds[of x 2] xpos by simp
  then have "2 ^ e * 2 ^ 52 \<le> x" by (simp only: fl power_add)
  then have d: "2 ^ e \<le> x div 2 ^ 52"
    by (simp add: less_eq_div_iff_mult_less_eq)
  have r: "x mod 2 ^ e < 2 ^ e" by simp
  have q: "x div 2 ^ e * 2 ^ e = x - x mod 2 ^ e"
    by (simp add: minus_mod_eq_div_mult)
  have "x - x div 2 ^ 52 \<le> x div 2 ^ e * 2 ^ e"
    using d r q by linarith
  moreover have "x div 2 ^ e * 2 ^ e \<le> round53 x"
    unfolding round53_def e_def[symmetric] Let_def by simp
  ultimately show ?thesis by linarith
qed

lemma toDouble_exact: "x < 2 ^ 53 \<Longrightarrow> toDouble x = Finite x"
  by (simp add: toDouble_def round53_exact Let_def)

lemma round53_three_quarters: "3 * x \<le> 4 * round53 x"
proof -
  have "x div 2 ^ 52 * 2 ^ 52 \<le> x" by simp
  then have "4 * (x div 2 ^ 52) \<le> x" by simp
  then show ?thesis using round53_lower[of x] by linarith
qed

text \<open>The two constants are the doubles nearest to 0.45 and to 0.35: 53-bit integers, each
  within one half of the exact multiple of \<open>2^54\<close>.\<close>

lemma DOUBLE_0_45_nearest:
  "2 ^ 52 \<le> DOUBLE_0_45 \<and> DOUBLE_0_45 < 2 ^ 53 \<and>
   45 * 2 ^ 54 \<le> 100 * DOUBLE_0_45 + 50 \<and> 100 * DOUBLE_0_45 \<le> 45 * 2 ^ 54 + 50"
  by (simp add: DOUBLE_0_45_def)

lemma DOUBLE_0_35_nearest:
  "2 ^ 52 \<le> DOUBLE_0_35 \<and> DOUBLE_0_35 < 2 ^ 53 \<and>
   35 * 2 ^ 54 \<le> 100 * DOUBLE_0_35 + 50 \<and> 100 * DOUBLE_0_35 \<le> 35 * 2 ^ 54 + 50"
  by (simp add: DOUBLE_0_35_def)

subsection \<open>Tier sizes\<close>

lemma all_less_numeral:
  "(\<forall>i < numeral k. P i) = (P (pred_numeral k) \<and> (\<forall>i < pred_numeral k. P i))"
  by (metis All_less_Suc numeral_eq_Suc)

lemma enum45:
  "\<forall>n<34. min 15 (ceilTimes n DOUBLE_0_45) = min 15 ((45 * n + 99) div 100)"
  apply (simp only: all_less_numeral pred_numeral_simps Num.BitM.simps)
  apply (simp add: ceilTimes_def round53_def compute_floorlog DOUBLE_0_35_def DOUBLE_0_45_def Let_def)
  done

lemma enum35:
  "\<forall>n<29. min 10 (ceilTimes n DOUBLE_0_35) = min 10 ((35 * n + 99) div 100)"
  apply (simp only: all_less_numeral pred_numeral_simps Num.BitM.simps)
  apply (simp add: ceilTimes_def round53_def compute_floorlog DOUBLE_0_35_def DOUBLE_0_45_def Let_def)
  done

lemma ceil_ratio: "nat \<lceil>real a * real n / 100\<rceil> = (a * n + 99) div 100"
proof -
  have "\<lceil>real a * real n / 100\<rceil> = \<lceil>of_int (int (a * n)) / (of_int 100 :: real)\<rceil>"
    by simp
  also have "\<dots> = - (- int (a * n) div 100)"
    by (rule ceiling_divide_eq_div)
  finally have "\<lceil>real a * real n / 100\<rceil> = - (- int (a * n) div 100)" .
  moreover have "- (- int (a * n) div 100) = int ((a * n + 99) div 100)"
    by (simp add: zdiv_int)
  ultimately show ?thesis by simp
qed

lemma ceilTimes_ge:
  assumes "b * 2 ^ 54 < x - x div 2 ^ 52"
  shows "b < (round53 x + (2 ^ 54 - 1)) div 2 ^ 54"
proof -
  have "b * 2 ^ 54 < round53 x" using assms round53_lower[of x] by linarith
  then have "(b + 1) * 2 ^ 54 \<le> round53 x + (2 ^ 54 - 1)" by simp
  then have "b + 1 \<le> (round53 x + (2 ^ 54 - 1)) div 2 ^ 54"
    by (simp only: less_eq_div_iff_mult_less_eq zero_less_numeral zero_less_power)
  then show ?thesis by simp
qed

lemma highCountOf_exact: "highCountOf n = min 15 (nat \<lceil>0.45 * real n\<rceil>)"
proof -
  have ex: "nat \<lceil>0.45 * real n\<rceil> = (45 * n + 99) div 100"
    using ceil_ratio[of 45 n] by simp
  show ?thesis
  proof (cases "n < 34")
    case True
    with enum45 have "min 15 (ceilTimes n DOUBLE_0_45) = min 15 ((45 * n + 99) div 100)"
      by blast
    then show ?thesis by (simp only: highCountOf_def ex)
  next
    case False
    then have n: "34 \<le> n" by simp
    define x where "x = n * DOUBLE_0_45"
    have "34 * DOUBLE_0_45 \<le> x" using n by (simp add: x_def)
    then have xl: "275620297195074362 \<le> x" by (simp add: DOUBLE_0_45_def)
    have "x div 2 ^ 52 * 2 ^ 52 \<le> x" by simp
    then have "14 * 2 ^ 54 < x - x div 2 ^ 52" using xl by simp
    then have "14 < ceilTimes n DOUBLE_0_45"
      unfolding ceilTimes_def x_def[symmetric] by (rule ceilTimes_ge)
    moreover have "15 \<le> (45 * n + 99) div 100" using n by linarith
    ultimately show ?thesis by (simp only: highCountOf_def ex)
  qed
qed

lemma medCountOf_exact: "medCountOf n = min 10 (nat \<lceil>0.35 * real n\<rceil>)"
proof -
  have ex: "nat \<lceil>0.35 * real n\<rceil> = (35 * n + 99) div 100"
    using ceil_ratio[of 35 n] by simp
  show ?thesis
  proof (cases "n < 29")
    case True
    with enum35 have "min 10 (ceilTimes n DOUBLE_0_35) = min 10 ((35 * n + 99) div 100)"
      by blast
    then show ?thesis by (simp only: medCountOf_def ex)
  next
    case False
    then have n: "29 \<le> n" by simp
    define x where "x = n * DOUBLE_0_35"
    have "29 * DOUBLE_0_35 \<le> x" using n by (simp add: x_def)
    then have xl: "182846144871242126 \<le> x" by (simp add: DOUBLE_0_35_def)
    have "x div 2 ^ 52 * 2 ^ 52 \<le> x" by simp
    then have "9 * 2 ^ 54 < x - x div 2 ^ 52" using xl by simp
    then have "9 < ceilTimes n DOUBLE_0_35"
      unfolding ceilTimes_def x_def[symmetric] by (rule ceilTimes_ge)
    moreover have "10 \<le> (35 * n + 99) div 100" using n by linarith
    ultimately show ?thesis by (simp only: medCountOf_def ex)
  qed
qed

subsection \<open>The frequency pass\<close>

lemma toDouble_atLeast: "4 * k \<le> 3 * x \<Longrightarrow> scoreAtLeast (toDouble x) k"
  using round53_three_quarters[of x] by (simp add: toDouble_def Let_def)

lemma mapGet_mapSet: "mapGet (mapSet k v m) k' = (if k' = k then Some v else mapGet m k')"
  unfolding mapGet_def by (induction k v m rule: mapSet.induct) auto

lemma countWord_other: "x \<noteq> w \<Longrightarrow> mapGet (countWord f x) w = mapGet f w"
  by (simp add: countWord_def mapGet_mapSet Let_def)

lemma countWord_same:
  "w \<in> set technicalPatterns \<or> length w > 4 \<Longrightarrow>
   mapGet (countWord f w) w = Some (timesN (plusN (getOrZero f w) 1) (boostOf w))"
  by (simp add: countWord_def mapGet_mapSet Let_def)

lemma frequencyPass_snoc: "frequencyPass (ws @ [x]) = countWord (frequencyPass ws) x"
  by (simp add: frequencyPass_def)

lemma frequencyPass_score:
  assumes q: "w \<in> set technicalPatterns \<or> length w > 4"
  shows "mapGet (frequencyPass ws) w =
     (if count_list ws w = 0 then None else Some (scoreAfter (boostOf w) (count_list ws w)))"
proof (induction ws rule: rev_induct)
  case Nil
  then show ?case by (simp add: frequencyPass_def mapGet_def)
next
  case (snoc x ws)
  show ?case
  proof (cases "x = w")
    case True
    have g: "getOrZero (frequencyPass ws) w = scoreAfter (boostOf w) (count_list ws w)"
      using snoc by (simp add: getOrZero_def)
    show ?thesis
      using True countWord_same[OF q, of "frequencyPass ws"] g
      by (simp add: frequencyPass_snoc)
  next
    case False
    then show ?thesis
      using snoc by (simp add: frequencyPass_snoc countWord_other)
  qed
qed

lemma pow5: "5 ^ Suc n = 4 * ((5 ^ Suc n - 5) div 4) + (5::nat)"
proof (induction n)
  case 0
  then show ?case by simp
next
  case (Suc n)
  define g where "g = ((5::nat) ^ Suc n - 5) div 4"
  have e: "(5::nat) ^ Suc n = 4 * g + 5" using Suc by (simp add: g_def)
  have "(5::nat) ^ Suc (Suc n) = 5 * 5 ^ Suc n" by simp
  also have "\<dots> = 4 * (5 * g + 5) + 5" by (simp only: e) simp
  finally have f: "(5::nat) ^ Suc (Suc n) = 4 * (5 * g + 5) + 5" .
  show ?case by (simp only: f) simp
qed

lemma geo_step: "((5::nat) ^ Suc (Suc n) - 5) div 4 = 5 * ((5 ^ Suc n - 5) div 4 + 1)"
proof -
  define g where "g = ((5::nat) ^ Suc n - 5) div 4"
  have e: "(5::nat) ^ Suc n = 4 * g + 5" using pow5[of n] by (simp add: g_def)
  have "(5::nat) ^ Suc (Suc n) = 5 * 5 ^ Suc n" by simp
  also have "\<dots> = 4 * (5 * g + 5) + 5" by (simp only: e) simp
  finally have f: "(5::nat) ^ Suc (Suc n) = 4 * (5 * g + 5) + 5" .
  show ?thesis unfolding g_def[symmetric] by (simp only: f) simp
qed

lemma geo_bound: "n \<le> 22 \<Longrightarrow> ((5::nat) ^ Suc n - 5) div 4 < 2 ^ 53"
proof -
  assume "n \<le> 22"
  then have "(5::nat) ^ Suc n \<le> 5 ^ 23" by (intro power_increasing) simp_all
  then have "((5::nat) ^ Suc n - 5) div 4 \<le> (5 ^ 23 - 5) div 4"
    by (intro div_le_mono diff_le_mono)
  also have "\<dots> < 2 ^ 53" by simp
  finally show ?thesis .
qed

lemma toDouble_Finite: "toDouble x = Finite y \<Longrightarrow> y = round53 x"
  by (simp add: toDouble_def Let_def split: if_splits)

lemma scoreAfter_technical:
  "n \<le> 22 \<Longrightarrow> scoreAfter 5 n = Finite ((5 ^ Suc n - 5) div 4)"
proof (induction n)
  case 0
  then show ?case by simp
next
  case (Suc n)
  define g where "g = ((5::nat) ^ Suc n - 5) div 4"
  have ih: "scoreAfter 5 n = Finite g" using Suc by (simp add: g_def)
  have st: "((5::nat) ^ Suc (Suc n) - 5) div 4 = (g + 1) * 5"
    using geo_step[of n] by (simp add: g_def)
  have b: "(g + 1) * 5 < 2 ^ 53"
    using geo_bound[of "Suc n"] Suc.prems by (simp only: st)
  then have b1: "g + 1 < 2 ^ 53" by simp
  have "scoreAfter 5 (Suc n) = timesN (plusN (Finite g) 1) 5"
    by (simp only: scoreAfter.simps ih)
  also have "\<dots> = timesN (Finite (g + 1)) 5"
    by (simp only: plusN.simps toDouble_exact[OF b1])
  also have "\<dots> = Finite ((g + 1) * 5)"
    by (simp only: timesN.simps toDouble_exact[OF b])
  finally show ?case by (simp only: st)
qed

lemma bump_atLeast:
  assumes "scoreAtLeast s a"
  shows "scoreAtLeast (timesN (plusN s 1) 5) (2 * a + 2)"
proof (cases s)
  case Infinity
  then show ?thesis by simp
next
  case (Finite x)
  then have ax: "a \<le> x" using assms by simp
  show ?thesis
  proof (cases "toDouble (x + 1)")
    case Infinity
    then show ?thesis using Finite by simp
  next
    case y: (Finite y)
    have y1: "3 * (x + 1) \<le> 4 * y"
      using toDouble_Finite[OF y] round53_three_quarters[of "x + 1"] by simp
    show ?thesis
    proof (cases "toDouble (y * 5)")
      case Infinity
      then show ?thesis using Finite y by simp
    next
      case z: (Finite z)
      have "15 * y \<le> 4 * z"
        using toDouble_Finite[OF z] round53_three_quarters[of "y * 5"] by simp
      then have "60 * y \<le> 16 * z" by simp
      moreover have "45 * (x + 1) \<le> 60 * y" using y1 by simp
      ultimately have "45 * (a + 1) \<le> 16 * z" using ax by simp
      then have "2 * a + 2 \<le> z" by simp
      then show ?thesis using Finite y z by simp
    qed
  qed
qed

lemma scoreAfter_atLeast: "2 \<le> n \<Longrightarrow> scoreAtLeast (scoreAfter 5 n) (10 * n)"
proof (induction n)
  case 0
  then show ?case by simp
next
  case (Suc n)
  show ?case
  proof (cases "n = 1")
    case True
    have "scoreAfter 5 (Suc (Suc 0)) = Finite 30"
      by (simp add: toDouble_exact)
    then show ?thesis using True by simp
  next
    case False
    then have n2: "2 \<le> n" using Suc.prems by simp
    then have "scoreAtLeast (scoreAfter 5 n) (10 * n)" using Suc.IH by simp
    then have "scoreAtLeast (timesN (plusN (scoreAfter 5 n) 1) 5) (2 * (10 * n) + 2)"
      by (rule bump_atLeast)
    then have l: "scoreAtLeast (scoreAfter 5 (Suc n)) (2 * (10 * n) + 2)"
      by (simp only: scoreAfter.simps)
    have "10 * Suc n \<le> 2 * (10 * n) + 2" using n2 by simp
    then show ?thesis using l by (cases "scoreAfter 5 (Suc n)") simp_all
  qed
qed

lemma scoreAfter_plain: "n \<le> 2 ^ 53 \<Longrightarrow> scoreAfter 1 n = Finite n"
proof (induction n)
  case 0
  then show ?case by simp
next
  case (Suc n)
  then have ih: "scoreAfter 1 n = Finite n" and b: "n + 1 \<le> 2 ^ 53" by simp_all
  have r: "round53 (n + 1) = n + 1"
  proof (cases "n + 1 < 2 ^ 53")
    case True
    then show ?thesis by (rule round53_exact)
  next
    case False
    then have "n + 1 = 2 ^ 53" using b by simp
    then show ?thesis by (simp add: round53_def compute_floorlog Let_def)
  qed
  have "(2::nat) ^ 53 < 2 ^ 1024" by simp
  then have "\<not> 2 ^ 1024 \<le> n + 1" using b by linarith
  then have t: "toDouble (n + 1) = Finite (n + 1)"
    unfolding toDouble_def Let_def r by (rule if_not_P)
  have "scoreAfter 1 (Suc n) = timesN (plusN (Finite n) 1) 1"
    by (simp only: scoreAfter.simps ih)
  also have "\<dots> = toDouble ((n + 1) * 1)"
    by (simp only: plusN.simps t timesN.simps)
  also have "\<dots> = Finite (Suc n)"
    using t by simp
  finally show ?case .
qed

subsection \<open>The sample posting, evaluated\<close>

lemmas strEval = str_def isSpace_def isLowerAZ_def isUpperAZ_def isDigit_def isWordChar_def
  lowerAscii_def isAscii_def toLowerCase_def canonicalize_def keptUnit_def replaceOther_def

lemma posting_lower:
  "toLowerCase h posting = str ''we need a python and kubernetes engineer with aws experience''"
  by (simp add: posting_def strEval)

lemma posting_words:
  "wordsOf h posting = map str [''python'', ''kubernetes'', ''engineer'', ''aws'']"
proof -
  have a: "replaceOther (str ''we need a python and kubernetes engineer with aws experience'')
      = str ''we need a python and kubernetes engineer with aws experience''"
    by (simp add: strEval)
  have b: "splitSpaces False [] (str ''we need a python and kubernetes engineer with aws experience'')
      = map str [''we'', ''need'', ''a'', ''python'', ''and'', ''kubernetes'', ''engineer'',
                 ''with'', ''aws'', ''experience'']"
    by (simp add: strEval)
  show ?thesis
    unfolding wordsOf_def posting_lower a b
    by (simp add: str_def stopWords_def softSkillsToExclude_def)
qed

lemma posting_freq:
  "frequencyPass (map str [''python'', ''kubernetes'', ''engineer'', ''aws'']) =
     [(str ''python'', Finite 5), (str ''kubernetes'', Finite 5), (str ''engineer'', Finite 1),
      (str ''aws'', Finite 5)]"
  by (simp add: frequencyPass_def countWord_def boostOf_def getOrZero_def mapGet_def
       technicalPatterns_def str_def toDouble_exact Let_def)

lemma posting_no_phrase:
  "\<forall>p \<in> set multiWordPatterns.
     \<not> includesStr (str ''we need a python and kubernetes engineer with aws experience'') p"
  by (simp add: multiWordPatterns_def str_def)

lemma phrasePass_none:
  assumes "\<forall>p \<in> set multiWordPatterns. \<not> includesStr t p"
  shows "phrasePass t f = f"
proof -
  have "\<forall>p \<in> set ps. \<not> includesStr t p \<Longrightarrow> foldl (addPhrase t) f ps = f" for ps
    by (induction ps arbitrary: f) (simp_all add: addPhrase_def)
  then show ?thesis using assms by (simp add: phrasePass_def)
qed

lemma posting_sorted:
  "sortedKeywords h posting 35 = map str [''python'', ''kubernetes'', ''aws'', ''engineer'']"
  unfolding sortedKeywords_def posting_lower posting_words posting_freq
    phrasePass_none[OF posting_no_phrase]
  by (simp add: sortDesc_def jsSlice_def relativeIndex_def softSkillsToExclude_def str_def)




lemma counts4: "highCountOf 4 = 2" "medCountOf 4 = 2"
  by (simp_all add: highCountOf_def medCountOf_def ceilTimes_def round53_def
        compute_floorlog DOUBLE_0_45_def DOUBLE_0_35_def Let_def)

lemma posting_extraction:
  "ultraFastExtraction h posting 35 =
     \<lparr>all = map str [''python'', ''kubernetes'', ''aws'', ''engineer''],
      highPriority = map str [''python'', ''kubernetes''],
      mediumPriority = map str [''aws'', ''engineer''],
      lowPriority = [],
      workExperience = map str [''python'', ''kubernetes'', ''aws'', ''engineer''],
      total = 4\<rparr>"
proof -
  have len: "length (map str [''python'', ''kubernetes'', ''aws'', ''engineer'']) = 4"
    by simp
  show ?thesis
    unfolding ultraFastExtraction_def posting_sorted Let_def len counts4
    by (simp add: slice_def)
qed

subsection \<open>Claims on extraction\<close>


















text \<open>
  C3. In the frequency pass, an occurrence of a qualifying word \<open>w\<close> (a technical term, or
  longer than four code units) sets its score to \<open>count * boost\<close>, where \<open>count\<close> is the
  score stored so far (0 when there is none) plus one, and \<open>boost\<close> is 5 for a technical
  term and 1 otherwise. So a technical term that occurred \<open>n\<close> times has the score
  \<open>5 + 5^2 + ... + 5^n = (5^(n+1) - 5) / 4\<close>, as long as the doubles are exact (up to 22
  occurrences); from two occurrences on, and for every later \<open>n\<close>, that score is not
  \<open>n * 5\<close>. A qualifying word that is no technical term has the score \<open>n\<close>.
\<close>

theorem frequency_score_recomputed:
  assumes "w \<in> set technicalPatterns \<or> length w > 4"
  shows "mapGet (frequencyPass (ws @ [w])) w =
           Some (timesN (plusN (getOrZero (frequencyPass ws) w) 1)
                   (if w \<in> set technicalPatterns then 5 else 1)) \<and>
         (w \<in> set technicalPatterns \<and> 1 \<le> count_list ws w \<and> count_list ws w \<le> 22 \<longrightarrow>
            mapGet (frequencyPass ws) w = Some (Finite ((5 ^ (count_list ws w + 1) - 5) div 4))) \<and>
         (w \<in> set technicalPatterns \<and> 2 \<le> count_list ws w \<longrightarrow>
            mapGet (frequencyPass ws) w \<noteq> Some (Finite (count_list ws w * 5))) \<and>
         (w \<notin> set technicalPatterns \<and> 1 \<le> count_list ws w \<and> count_list ws w \<le> 2 ^ 53 \<longrightarrow>
            mapGet (frequencyPass ws) w = Some (Finite (count_list ws w)))"
proof -
  define n where "n = count_list ws w"
  have step: "mapGet (frequencyPass (ws @ [w])) w =
           Some (timesN (plusN (getOrZero (frequencyPass ws) w) 1)
                   (if w \<in> set technicalPatterns then 5 else 1))"
    using countWord_same[OF assms, of "frequencyPass ws"]
    by (simp only: frequencyPass_snoc boostOf_def)
  have sc: "mapGet (frequencyPass ws) w = (if n = 0 then None else Some (scoreAfter (boostOf w) n))"
    unfolding n_def by (rule frequencyPass_score[OF assms])
  have closed: "mapGet (frequencyPass ws) w = Some (Finite ((5 ^ (n + 1) - 5) div 4))"
    if "w \<in> set technicalPatterns" "1 \<le> n" "n \<le> 22"
    using that sc scoreAfter_technical[of n] by (simp add: boostOf_def)
  have differs: "mapGet (frequencyPass ws) w \<noteq> Some (Finite (n * 5))"
    if t: "w \<in> set technicalPatterns" and n2: "2 \<le> n"
  proof
    assume "mapGet (frequencyPass ws) w = Some (Finite (n * 5))"
    then have "scoreAfter 5 n = Finite (n * 5)"
      using sc t n2 by (simp add: boostOf_def)
    then have "10 * n \<le> n * 5" using scoreAfter_atLeast[OF n2] by simp
    then show False using n2 by simp
  qed
  have plain: "mapGet (frequencyPass ws) w = Some (Finite n)"
    if "w \<notin> set technicalPatterns" "1 \<le> n" "n \<le> 2 ^ 53"
    using that sc scoreAfter_plain[of n] by (simp add: boostOf_def)
  show ?thesis
    unfolding n_def[symmetric] using step closed differs plain by blast
qed

theorem frequency_score_recomputed_witness:
  "str ''python'' \<in> set technicalPatterns \<and>
   count_list (map str [''python'', ''engineer'', ''python'']) (str ''python'') = 2 \<and>
   mapGet (frequencyPass (map str [''python'', ''engineer'', ''python''])) (str ''python'')
     = Some (Finite 30) \<and>
   mapGet (frequencyPass (map str [''python'', ''engineer'', ''python''])) (str ''python'')
     \<noteq> Some (Finite (2 * 5))"
proof -
  have t: "str ''python'' \<in> set technicalPatterns"
    by (simp add: technicalPatterns_def str_def)
  have n: "count_list (map str [''python'', ''engineer'', ''python'']) (str ''python'') = 2"
    by (simp add: str_def)
  have v: "((5::nat) ^ (2 + 1) - 5) div 4 = 30"
    by simp
  have "mapGet (frequencyPass (map str [''python'', ''engineer'', ''python''])) (str ''python'')
     = Some (Finite ((5 ^ (2 + 1) - 5) div 4))"
    using frequency_score_recomputed [of "str ''python''" "map str [''python'', ''engineer'', ''python'']"]
      t unfolding n by simp
  then have s: "mapGet (frequencyPass (map str [''python'', ''engineer'', ''python''])) (str ''python'')
     = Some (Finite 30)"
    by (simp only: v)
  show ?thesis
    using t n s by simp
qed

text \<open>
  C7. The tier sizes that the code computes with doubles, \<open>highCountOf N\<close> and
  \<open>medCountOf N\<close>, are \<open>min(15, ceil(0.45 * N))\<close> and \<open>min(10, ceil(0.35 * N))\<close> in exact
  arithmetic, for the length \<open>N\<close> of the sorted, truncated list; \<open>highPriority\<close> is the first
  \<open>highCount\<close> entries of that list, \<open>mediumPriority\<close> the next \<open>medCount\<close>, and
  \<open>lowPriority\<close> the rest.
\<close>

theorem tier_sizes_exact:
  "(let ks = ultraFastExtraction h text maxKeywords;
        N = length (all ks);
        highCount = min 15 (nat \<lceil>0.45 * real N\<rceil>);
        medCount = min 10 (nat \<lceil>0.35 * real N\<rceil>)
    in highCountOf N = highCount \<and> medCountOf N = medCount \<and>
       highPriority ks = take highCount (all ks) \<and>
       mediumPriority ks = take medCount (drop highCount (all ks)) \<and>
       lowPriority ks = drop (highCount + medCount) (all ks))"
proof -
  define sorted where "sorted = sortedKeywords h text maxKeywords"
  have m: "drop h (take (h + k) sorted) = take k (drop h sorted)" for h k
    by (simp add: drop_take)
  show ?thesis
    unfolding ultraFastExtraction_def sorted_def[symmetric] Let_def
    by (simp add: slice_def m highCountOf_exact medCountOf_exact)
qed

theorem tier_sizes_exact_witness:
  "highCountOf 4 = min 15 (nat \<lceil>0.45 * real (4::nat)\<rceil>) \<and>
   medCountOf 4 = min 10 (nat \<lceil>0.35 * real (4::nat)\<rceil>) \<and>
   highPriority (ultraFastExtraction asciiHost posting 35) = map str [''python'', ''kubernetes''] \<and>
   mediumPriority (ultraFastExtraction asciiHost posting 35) = map str [''aws'', ''engineer''] \<and>
   lowPriority (ultraFastExtraction asciiHost posting 35) = []"
proof -
  have len: "length (all (ultraFastExtraction asciiHost posting 35)) = 4"
    by (simp add: posting_extraction)
  have "highCountOf 4 = min 15 (nat \<lceil>0.45 * real (4::nat)\<rceil>) \<and>
        medCountOf 4 = min 10 (nat \<lceil>0.35 * real (4::nat)\<rceil>)"
    using tier_sizes_exact [of asciiHost posting 35] unfolding Let_def len by blast
  then show ?thesis by (simp add: posting_extraction)
qed

text \<open>
  C8. When the job description is absent or shorter than 50 code units,
  \<open>turboExtractKeywords\<close> returns the empty keyword set: \<open>all\<close>, the three tiers and the
  work-experience subset are empty and \<open>total\<close> is 0. It returns a value (no error is
  raised), and it leaves the cache as it is.
\<close>

theorem short_text_gives_empty_set:
  assumes "jobDescription = None \<or> (\<exists>t. jobDescription = Some t \<and> length t < 50)"
  shows "turboExtractKeywords h jobDescription options now later c =
           (\<lparr>keywordSet = emptyKeywordSet, fromCache = None\<rparr>, c) \<and>
         all emptyKeywordSet = [] \<and> highPriority emptyKeywordSet = [] \<and>
         mediumPriority emptyKeywordSet = [] \<and> lowPriority emptyKeywordSet = [] \<and>
         workExperience emptyKeywordSet = [] \<and> total emptyKeywordSet = 0"
  using assms by (auto simp: turboExtractKeywords_def emptyKeywordSet_def Let_def)

theorem short_text_gives_empty_set_witness:
  "length (str ''Python developer'') < 50 \<and>
   turboExtractKeywords asciiHost (Some (str ''Python developer''))
       \<lparr>jobUrlOpt = None, maxKeywordsOpt = None\<rparr> 0 0 cacheAfterFirst =
     (\<lparr>keywordSet = \<lparr>all = [], highPriority = [], mediumPriority = [], lowPriority = [],
          workExperience = [], total = 0\<rparr>, fromCache = None\<rparr>, cacheAfterFirst) \<and>
   turboExtractKeywords asciiHost None \<lparr>jobUrlOpt = None, maxKeywordsOpt = None\<rparr> 0 0 cacheAfterFirst =
     (\<lparr>keywordSet = \<lparr>all = [], highPriority = [], mediumPriority = [], lowPriority = [],
          workExperience = [], total = 0\<rparr>, fromCache = None\<rparr>, cacheAfterFirst)"
proof -
  have l: "length (str ''Python developer'') < 50"
    by (simp add: str_def)
  have a: "turboExtractKeywords asciiHost (Some (str ''Python developer''))
       \<lparr>jobUrlOpt = None, maxKeywordsOpt = None\<rparr> 0 0 cacheAfterFirst =
     (\<lparr>keywordSet = emptyKeywordSet, fromCache = None\<rparr>, cacheAfterFirst)"
    using short_text_gives_empty_set [of "Some (str ''Python developer'')" asciiHost] l by blast
  have b: "turboExtractKeywords asciiHost None \<lparr>jobUrlOpt = None, maxKeywordsOpt = None\<rparr> 0 0 cacheAfterFirst =
     (\<lparr>keywordSet = emptyKeywordSet, fromCache = None\<rparr>, cacheAfterFirst)"
    using short_text_gives_empty_set [of None asciiHost] by blast
  show ?thesis
    using l a b by (simp add: emptyKeywordSet_def)
qed

section \<open>Keyword distribution\<close>

subsection \<open>The regular expressions\<close>

text \<open>
  \<open>new RegExp('\\b' + escaped(kw) + '\\b', 'gi').test(cvLower)\<close>: the escaped keyword
  matches itself, compared without case, and \<open>\b\<close> holds between a word character and
  what is not one (the ends of the text are not). \<open>boundaryAt prevWord s\<close> is \<open>\b\<close> at the
  start of the rest \<open>s\<close>, given whether the code unit before it is a word character;
  \<open>presentFrom\<close> tries every start, from left to right.
\<close>

definition boundaryAt :: "bool \<Rightarrow> jsstring \<Rightarrow> bool" where
  "boundaryAt prevWord s \<longleftrightarrow> prevWord \<noteq> (case s of [] \<Rightarrow> False | c # _ \<Rightarrow> isWordChar c)"

definition matchesLiteral :: "Host \<Rightarrow> jsstring \<Rightarrow> jsstring \<Rightarrow> bool" where
  "matchesLiteral h lit s \<longleftrightarrow>
     length lit \<le> length s \<and>
     map (canonicalize h) (take (length lit) s) = map (canonicalize h) lit"

definition matchesWord :: "Host \<Rightarrow> bool \<Rightarrow> jsstring \<Rightarrow> jsstring \<Rightarrow> bool" where
  "matchesWord h prevWord s kw \<longleftrightarrow>
     boundaryAt prevWord s \<and> matchesLiteral h kw s \<and>
     boundaryAt (if kw = [] then prevWord else isWordChar (last (take (length kw) s)))
       (drop (length kw) s)"

fun presentFrom :: "Host \<Rightarrow> bool \<Rightarrow> jsstring \<Rightarrow> jsstring \<Rightarrow> bool" where
  "presentFrom h prevWord [] kw = matchesWord h prevWord [] kw"
| "presentFrom h prevWord (c # cs) kw =
     (matchesWord h prevWord (c # cs) kw \<or> presentFrom h (isWordChar c) cs kw)"

definition keywordPresent :: "Host \<Rightarrow> jsstring \<Rightarrow> jsstring \<Rightarrow> bool" where
  "keywordPresent h cvLower kw = presentFrom h False cvLower kw"

text \<open>
  The two heading expressions have the shape \<open>\n(A|B|...)[\s:]*\n\<close> with flags \<open>i\<close> and
  \<open>m\<close>, where an alternative is a word or two words with \<open>\s*\<close> between them. A piece
  \<open>Spaces\<close> takes all the white space there is: the word after it starts with a letter, so
  giving white space back cannot help. The tail \<open>[\s:]*\n\<close> takes the whole run of white
  space and colons and gives back until a line feed ends it, so it ends after the last
  line feed of the run, and fails when the run has none. \<open>exec\<close> returns the leftmost
  match, at each start the first alternative that matches; the model returns its index
  and its length.
\<close>

datatype piece = Lit jsstring | Spaces

fun matchPieces :: "Host \<Rightarrow> piece list \<Rightarrow> jsstring \<Rightarrow> jsstring option" where
  "matchPieces h [] s = Some s"
| "matchPieces h (Lit l # ps) s =
     (if matchesLiteral h l s then matchPieces h ps (drop (length l) s) else None)"
| "matchPieces h (Spaces # ps) s = matchPieces h ps (dropWhile isSpace s)"

definition matchTail :: "jsstring \<Rightarrow> nat option" where
  "matchTail s =
     (let run = takeWhile (\<lambda>c. isSpace c \<or> c = 58) s
      in if LF \<in> set run then Some (length run - length (takeWhile (\<lambda>c. c \<noteq> LF) (rev run)))
         else None)"

fun firstAlternative :: "Host \<Rightarrow> piece list list \<Rightarrow> jsstring \<Rightarrow> nat option" where
  "firstAlternative h [] s = None"
| "firstAlternative h (a # alts) s =
     (case matchPieces h a s of
        None \<Rightarrow> firstAlternative h alts s
      | Some r \<Rightarrow>
          (case matchTail r of
             None \<Rightarrow> firstAlternative h alts s
           | Some k \<Rightarrow> Some (1 + (length s - length r) + k)))"

fun findHeading :: "Host \<Rightarrow> piece list list \<Rightarrow> nat \<Rightarrow> jsstring \<Rightarrow> (nat \<times> nat) option" where
  "findHeading h alts i [] = None"
| "findHeading h alts i (c # cs) =
     (case (if c = LF then firstAlternative h alts cs else None) of
        Some len \<Rightarrow> Some (i, len)
      | None \<Rightarrow> findHeading h alts (Suc i) cs)"

definition experienceHeadings :: "piece list list" where
  "experienceHeadings =
     [[Lit (str ''EXPERIENCE'')],
      [Lit (str ''WORK''), Spaces, Lit (str ''EXPERIENCE'')],
      [Lit (str ''EMPLOYMENT'')],
      [Lit (str ''PROFESSIONAL''), Spaces, Lit (str ''EXPERIENCE'')]]"

definition nextSectionHeadings :: "piece list list" where
  "nextSectionHeadings =
     [[Lit (str ''SKILLS'')],
      [Lit (str ''EDUCATION'')],
      [Lit (str ''CERTIFICATIONS'')],
      [Lit (str ''PROJECTS'')],
      [Lit (str ''TECHNICAL''), Spaces, Lit (str ''PROFICIENCIES'')]]"

text \<open>\<open>/^[-\<bullet>*...]\s/.test(trimmed)\<close>: one of the five bullet glyphs (hyphen, U+2022,
  asterisk, U+25AA, U+25B8), then white space.\<close>

definition isBulletGlyph :: "nat \<Rightarrow> bool" where
  "isBulletGlyph c \<longleftrightarrow> c = 45 \<or> c = 8226 \<or> c = 42 \<or> c = 9642 \<or> c = 9656"

definition isBulletLine :: "jsstring \<Rightarrow> bool" where
  "isBulletLine line =
     (case trim line of c # d # _ \<Rightarrow> isBulletGlyph c \<and> isSpace d | _ \<Rightarrow> False)"

subsection \<open>The parts of a run\<close>

definition phrases :: "jsstring list" where
  "phrases = map str
   [''leveraging'', ''utilizing'', ''implementing'', ''applying'', ''with expertise in'',
    ''through'', ''incorporating'', ''employing'', ''using'', ''via'']"

text \<open>
  \<open>getPhrase\<close> draws a phrase at random. The draws are an argument: \<open>rnd k\<close> is the index
  that the draw number \<open>k\<close> of the run yields, \<open>Math.floor(Math.random() * 10)\<close>.
\<close>

definition getPhrase :: "(nat \<Rightarrow> nat) \<Rightarrow> nat \<Rightarrow> jsstring" where
  "getPhrase rnd k = phrases ! (rnd k mod length phrases)"

text \<open>The options. \<open>maxKeywordsPerBullet\<close> is an integer, of either sign.\<close>

record DistributeOptions =
  maxBulletsPerRoleOpt :: "nat option"
  maxKeywordsPerBulletOpt :: "int option"

record DistributionStats =
  total :: nat
  alreadyPresent :: nat
  added :: nat
  missing :: nat

text \<open>The result: the text, which is absent when the input text is, and the statistics,
  which are the empty object (\<open>None\<close>) on the early return. The measured \<open>timing\<close> is not
  modelled.\<close>

record DistributionResult =
  tailoredCV :: "jsstring option"
  distributionStats :: "DistributionStats option"

definition missingKeywordsOf :: "Host \<Rightarrow> jsstring \<Rightarrow> jsstring list \<Rightarrow> jsstring list" where
  "missingKeywordsOf h cvText allKeywords =
     filter (\<lambda>kw. \<not> keywordPresent h (toLowerCase h cvText) kw) allKeywords"

definition presentKeywordsOf :: "Host \<Rightarrow> jsstring \<Rightarrow> jsstring list \<Rightarrow> jsstring list" where
  "presentKeywordsOf h cvText allKeywords =
     filter (\<lambda>kw. keywordPresent h (toLowerCase h cvText) kw) allKeywords"

text \<open>The experience section: where it starts, where it ends, and its lines. Nothing when
  no experience heading matches.\<close>

definition experienceLines :: "Host \<Rightarrow> jsstring \<Rightarrow> (nat \<times> nat \<times> jsstring list) option" where
  "experienceLines h cvText =
     (case findHeading h experienceHeadings 0 cvText of
        None \<Rightarrow> None
      | Some (index, len) \<Rightarrow>
          (let expStart = index + len;
               afterExp = drop expStart cvText;
               expEnd = (case findHeading h nextSectionHeadings 0 afterExp of
                           Some (nextIndex, _) \<Rightarrow> expStart + nextIndex
                         | None \<Rightarrow> length cvText);
               experienceSection = slice cvText expStart expEnd
           in Some (expStart, expEnd, splitLines experienceSection)))"

definition bulletLinesOf :: "jsstring list \<Rightarrow> nat list" where
  "bulletLinesOf ls = filter (\<lambda>i. isBulletLine (ls ! i)) [0..<length ls]"

text \<open>
  \<open>Math.ceil(missingKeywords.length / bulletLines.length)\<close>. The quotient of two lengths is
  rounded to a double before it is raised; a quotient that is no integer lies at least
  \<open>1 / bulletLines.length\<close> above the integer below it, far more than the rounding moves it
  for lengths an array can have, so the result is the exact ceiling.
\<close>

definition keywordsPerBulletOf :: "nat \<Rightarrow> nat \<Rightarrow> nat" where
  "keywordsPerBulletOf m b = (m + b - 1) div b"

text \<open>The injected text. \<open>kwsToAdd.slice(0, -1)\<close> is the list without its last entry, and
  \<open>kwsToAdd.slice(-1)\<close>, the list of the last entry, is written into the string with commas
  between its entries.\<close>

definition injectionOf :: "jsstring \<Rightarrow> jsstring list \<Rightarrow> jsstring" where
  "injectionOf phrase kwsToAdd =
     (if length kwsToAdd = 1 then str '', '' @ phrase @ str '' '' @ kwsToAdd ! 0
      else if length kwsToAdd = 2 then
        str '' '' @ phrase @ str '' '' @ kwsToAdd ! 0 @ str '' and '' @ kwsToAdd ! 1
      else str '' '' @ phrase @ str '' '' @ join (str '', '') (jsSlice kwsToAdd 0 (- 1))
             @ str '', and '' @ join (str '','') (jsSliceFrom kwsToAdd (- 1)))"

definition injectInto :: "jsstring \<Rightarrow> jsstring \<Rightarrow> jsstring" where
  "injectInto line injection =
     (if endsWith line 46 then butlast line @ injection @ str ''.''
      else trimEnd line @ injection)"

text \<open>The state of the loop over the bullets: the lines, the index into the missing
  keywords (an integer: a negative \<open>maxKeywordsPerBullet\<close> makes it negative),
  \<open>stats.added\<close>, and the number of phrases drawn so far.\<close>

record LoopState =
  loopLines :: "jsstring list"
  keywordIndex :: int
  loopAdded :: nat
  draws :: nat

text \<open>The body of the loop, for the bullet at line \<open>lineIdx\<close>. The \<open>continue\<close> of an empty
  slice keeps the new index and nothing else.\<close>

definition bulletBody ::
  "(nat \<Rightarrow> nat) \<Rightarrow> jsstring list \<Rightarrow> int \<Rightarrow> nat \<Rightarrow> nat \<Rightarrow> LoopState \<Rightarrow> LoopState" where
  "bulletBody rnd missingKeywords maxKeywordsPerBullet keywordsPerBullet lineIdx st =
     (let numToAdd = min maxKeywordsPerBullet
                       (min (int keywordsPerBullet)
                            (int (length missingKeywords) - keywordIndex st));
          kwsToAdd = jsSlice missingKeywords (keywordIndex st) (keywordIndex st + numToAdd);
          st1 = st\<lparr>keywordIndex := keywordIndex st + numToAdd\<rparr>
      in if length kwsToAdd = 0 then st1
         else
           (let phrase = getPhrase rnd (draws st);
                line = injectInto (loopLines st ! lineIdx) (injectionOf phrase kwsToAdd)
            in st1\<lparr>loopLines := (loopLines st)[lineIdx := line],
                   loopAdded := loopAdded st + length kwsToAdd,
                   draws := Suc (draws st)\<rparr>))"

text \<open>The loop: over the bullets in order, as long as \<open>keywordIndex\<close> is below the number
  of missing keywords.\<close>

fun bulletLoop ::
  "(nat \<Rightarrow> nat) \<Rightarrow> jsstring list \<Rightarrow> int \<Rightarrow> nat \<Rightarrow> nat list \<Rightarrow> LoopState \<Rightarrow> LoopState" where
  "bulletLoop rnd missingKeywords cap perBullet [] st = st"
| "bulletLoop rnd missingKeywords cap perBullet (lineIdx # rest) st =
     (if keywordIndex st < int (length missingKeywords) then
        bulletLoop rnd missingKeywords cap perBullet rest
          (bulletBody rnd missingKeywords cap perBullet lineIdx st)
      else st)"

text \<open>The new bullet of a chunk, from the template for its size.\<close>

definition newBullet :: "jsstring list \<Rightarrow> jsstring" where
  "newBullet chunk =
     (if length chunk = 1 then
        [8226] @ str '' Implemented '' @ chunk ! 0
          @ str '' solutions to enhance operational efficiency and delivery outcomes''
      else if length chunk = 2 then
        [8226] @ str '' Applied '' @ chunk ! 0 @ str '' and '' @ chunk ! 1
          @ str '' methodologies to drive cross-functional improvements''
      else
        [8226] @ str '' Delivered '' @ join (str '', '') (jsSlice chunk 0 (- 1)) @ str '', and ''
          @ join (str '','') (jsSliceFrom chunk (- 1))
          @ str '' initiatives across technical teams'')"

text \<open>The loop over the remaining keywords, in chunks of three: the new bullets and
  \<open>stats.added\<close>. (It draws a phrase for each chunk and does not use it.)\<close>

function overflowLoop ::
  "jsstring list \<Rightarrow> nat \<Rightarrow> jsstring list \<times> nat \<Rightarrow> jsstring list \<times> nat" where
  "overflowLoop remaining i (newBullets, n) =
     (if i < length remaining then
        (let chunk = slice remaining i (i + 3)
         in overflowLoop remaining (i + 3) (newBullets @ [newBullet chunk], n + length chunk))
      else (newBullets, n))"
  by pat_completeness auto
termination
  by (relation "measure (\<lambda>(remaining, i, _). length remaining - i)") auto

text \<open>\<open>lines.splice(insertAfter + 1, 0, ...newBullets)\<close>.\<close>

definition spliceIn :: "nat \<Rightarrow> jsstring list \<Rightarrow> jsstring list \<Rightarrow> jsstring list" where
  "spliceIn pos newBullets ls = take pos ls @ newBullets @ drop pos ls"

text \<open>The part of the run after the bullets are known to exist: the loop over the bullets,
  then the new bullets for what \<open>missingKeywords.slice(keywordIndex)\<close> holds. It gives the
  lines and \<open>stats.added\<close>.\<close>

definition injectAll ::
  "(nat \<Rightarrow> nat) \<Rightarrow> jsstring list \<Rightarrow> int \<Rightarrow> jsstring list \<Rightarrow> nat list \<Rightarrow> jsstring list \<times> nat" where
  "injectAll rnd missingKeywords maxKeywordsPerBullet ls bulletLines =
     (let keywordsPerBullet = keywordsPerBulletOf (length missingKeywords) (length bulletLines);
          st = bulletLoop rnd missingKeywords maxKeywordsPerBullet keywordsPerBullet bulletLines
                 \<lparr>loopLines = ls, keywordIndex = 0, loopAdded = 0, draws = 0\<rparr>
      in if keywordIndex st < int (length missingKeywords) then
           (let remaining = jsSliceFrom missingKeywords (keywordIndex st);
                (newBullets, n) = overflowLoop remaining 0 ([], loopAdded st)
            in if length bulletLines > 0 \<and> length newBullets > 0 then
                 (let insertAfter = bulletLines ! (min 4 (length bulletLines - 1))
                  in (spliceIn (insertAfter + 1) newBullets (loopLines st), n))
               else (loopLines st, n))
         else (loopLines st, loopAdded st))"

subsection \<open>The function\<close>

text \<open>
  \<open>distributeHighPriorityKeywords(cvText, allKeywords, options)\<close>. The text and the keyword
  list may be absent. \<open>maxKeywordsPerBullet\<close> is 3 when absent; the function does not read
  \<open>maxBulletsPerRole\<close>. \<open>Math.max(0, missing - added)\<close> is the subtraction of natural
  numbers.
\<close>

definition distributeText ::
  "Host \<Rightarrow> (nat \<Rightarrow> nat) \<Rightarrow> jsstring \<Rightarrow> jsstring list \<Rightarrow> int \<Rightarrow> DistributionResult" where
  "distributeText h rnd cvText allKeywords maxKeywordsPerBullet =
     (let missingKeywords = missingKeywordsOf h cvText allKeywords;
          presentKeywords = presentKeywordsOf h cvText allKeywords;
          stats = \<lparr>total = length allKeywords, alreadyPresent = length presentKeywords,
                   added = 0, missing = 0\<rparr>
      in if length missingKeywords = 0 then
           \<lparr>tailoredCV = Some cvText, distributionStats = Some stats\<rparr>
         else
           (case experienceLines h cvText of
              None \<Rightarrow>
                \<lparr>tailoredCV = Some cvText,
                 distributionStats = Some (stats\<lparr>missing := length missingKeywords\<rparr>)\<rparr>
            | Some (expStart, expEnd, ls) \<Rightarrow>
                (let bulletLines = bulletLinesOf ls
                 in if length bulletLines = 0 then
                      \<lparr>tailoredCV = Some cvText,
                       distributionStats = Some (stats\<lparr>missing := length missingKeywords\<rparr>)\<rparr>
                    else
                      (let (ls', n) = injectAll rnd missingKeywords maxKeywordsPerBullet ls
                                        bulletLines;
                           experienceSection = join [LF] ls'
                       in \<lparr>tailoredCV =
                             Some (slice cvText 0 expStart @ experienceSection
                                   @ drop expEnd cvText),
                           distributionStats =
                             Some (stats\<lparr>added := n,
                                         missing := length missingKeywords - n\<rparr>)\<rparr>))))"

definition distributeHighPriorityKeywords ::
  "Host \<Rightarrow> (nat \<Rightarrow> nat) \<Rightarrow> jsstring option \<Rightarrow> jsstring list option \<Rightarrow> DistributeOptions
     \<Rightarrow> DistributionResult" where
  "distributeHighPriorityKeywords h rnd cvText allKeywords options =
     (let maxKeywordsPerBullet =
            (case maxKeywordsPerBulletOpt options of None \<Rightarrow> 3 | Some k \<Rightarrow> k)
      in case cvText of
           None \<Rightarrow> \<lparr>tailoredCV = cvText, distributionStats = None\<rparr>
         | Some t \<Rightarrow>
             (case allKeywords of
                None \<Rightarrow> \<lparr>tailoredCV = cvText, distributionStats = None\<rparr>
              | Some ks \<Rightarrow>
                  if t = [] \<or> length ks = 0
                  then \<lparr>tailoredCV = cvText, distributionStats = None\<rparr>
                  else distributeText h rnd t ks maxKeywordsPerBullet))"

subsection \<open>Helpers of the proofs, and samples\<close>

text \<open>One round of the loop over the bullets when the index is a position in the list of
  missing keywords and the quota \<open>q\<close> of a bullet is a count: what \<open>bulletBody\<close> does then.
  \<open>idx\<close> is the index as a natural number.\<close>

definition idx :: "LoopState \<Rightarrow> nat" where
  "idx st = nat (keywordIndex st)"

definition bulletStep ::
  "(nat \<Rightarrow> nat) \<Rightarrow> jsstring list \<Rightarrow> nat \<Rightarrow> nat \<Rightarrow> LoopState \<Rightarrow> LoopState" where
  "bulletStep rnd ms q x st =
     (let n = min q (length ms - idx st)
      in if n = 0 then st
         else st\<lparr>keywordIndex := int (idx st + n),
                loopLines := (loopLines st)[x := injectInto (loopLines st ! x)
                    (injectionOf (getPhrase rnd (draws st))
                       (take n (drop (idx st) ms)))],
                loopAdded := loopAdded st + n,
                draws := Suc (draws st)\<rparr>)"

text \<open>A sample resume, with an experience section of two bullets and a skills section;
  keyword lists of which five, seven and three are missing from it; the draws 0, 1, 2,
  ...; the default options, the options with one keyword for a bullet, and the options
  with the cap -1; the texts expected from the runs; a resume whose experience section
  has no bullet, and one with no heading; a text and a keyword with letters of Latin-1
  (the plural of the French word for summary, in small letters and in capitals); a text
  and a keyword that differ in an s and a long s.\<close>

definition resume :: jsstring where
  "resume = str ''Jane Doe'' @ [LF] @ str ''EXPERIENCE'' @ [LF]
      @ str ''- Built data pipelines.'' @ [LF]
      @ str ''- Led the platform migration'' @ [LF]
      @ str ''SKILLS'' @ [LF] @ str ''SQL, Excel'' @ [LF]"

definition resumeLines :: "jsstring list" where
  "resumeLines = [str ''- Built data pipelines.'', str ''- Led the platform migration'']"

definition keywords6 :: "jsstring list" where
  "keywords6 = map str [''python'', ''sql'', ''kubernetes'', ''aws'', ''docker'', ''terraform'']"

definition missing5 :: "jsstring list" where
  "missing5 = map str [''python'', ''kubernetes'', ''aws'', ''docker'', ''terraform'']"


definition keywords3 :: "jsstring list" where
  "keywords3 = map str [''python'', ''kubernetes'', ''aws'']"

definition countUp :: "nat \<Rightarrow> nat" where
  "countUp k = k"

definition defaults :: DistributeOptions where
  "defaults = \<lparr>maxBulletsPerRoleOpt = None, maxKeywordsPerBulletOpt = None\<rparr>"


definition negativeCap :: DistributeOptions where
  "negativeCap = \<lparr>maxBulletsPerRoleOpt = None, maxKeywordsPerBulletOpt = Some (- 1)\<rparr>"

definition tailored5 :: jsstring where
  "tailored5 = str ''Jane Doe'' @ [LF] @ str ''EXPERIENCE'' @ [LF]
      @ str ''- Built data pipelines leveraging python, kubernetes, and aws.'' @ [LF]
      @ str ''- Led the platform migration utilizing docker and terraform'' @ [LF]
      @ str ''SKILLS'' @ [LF] @ str ''SQL, Excel'' @ [LF]"

definition tailored3 :: jsstring where
  "tailored3 = str ''Jane Doe'' @ [LF] @ str ''EXPERIENCE'' @ [LF]
      @ str ''- Built data pipelines leveraging python and kubernetes.'' @ [LF]
      @ str ''- Led the platform migration, utilizing aws'' @ [LF]
      @ str ''SKILLS'' @ [LF] @ str ''SQL, Excel'' @ [LF]"



definition tailoredNegative :: jsstring where
  "tailoredNegative = str ''Jane Doe'' @ [LF] @ str ''EXPERIENCE'' @ [LF]
      @ str ''- Built data pipelines leveraging python, kubernetes, aws, and docker.'' @ [LF]
      @ str ''- Led the platform migration'' @ [LF]
      @ [8226] @ str '' Applied docker and terraform methodologies to drive cross-functional improvements'' @ [LF]
      @ str ''SKILLS'' @ [LF] @ str ''SQL, Excel'' @ [LF]"

definition plainResume :: jsstring where
  "plainResume = str ''Jane Doe'' @ [LF] @ str ''EXPERIENCE'' @ [LF]
      @ str ''Built data pipelines with SQL'' @ [LF]"

definition noHeadingResume :: jsstring where
  "noHeadingResume = str ''Jane Doe'' @ [LF] @ str ''Built data pipelines with SQL''"

definition accentText :: jsstring where
  "accentText = str ''r'' @ [233] @ str ''sum'' @ [233] @ str ''s''"

definition accentKeyword :: jsstring where
  "accentKeyword = str ''R'' @ [201] @ str ''SUM'' @ [201] @ str ''S''"

definition longSText :: jsstring where
  "longSText = str ''mass data''"

definition longSKeyword :: jsstring where
  "longSKeyword = str ''ma'' @ [383] @ str ''s''"

definition state0 :: LoopState where
  "state0 = \<lparr>loopLines = resumeLines, keywordIndex = 0, loopAdded = 0, draws = 0\<rparr>"




subsection \<open>The loop over the bullets\<close>

lemma slice_take_drop: "slice xs a (a + n) = take n (drop a xs)"
  by (simp add: slice_def drop_take)

lemma jsSlice_window:
  assumes "0 \<le> k" and "k \<le> int (length xs)" and "0 \<le> n"
  shows "jsSlice xs k (k + n) = take (nat n) (drop (nat k) xs)"
proof -
  have a: "relativeIndex (length xs) k = nat k"
    using assms by (simp add: relativeIndex_def)
  have b: "relativeIndex (length xs) (k + n) = min (nat k + nat n) (length xs)"
    using assms by (simp add: relativeIndex_def nat_add_distrib)
  show ?thesis
    unfolding jsSlice_def Let_def a b
    by (cases "nat k + nat n \<le> length xs") (simp_all add: min_def)
qed

lemma jsSliceFrom_nonneg: "0 \<le> k \<Longrightarrow> jsSliceFrom xs k = drop (nat k) xs"
  by (simp add: jsSliceFrom_def relativeIndex_def min_def)

lemma jsSlice_butlast: "jsSlice xs 0 (- 1) = butlast xs"
proof -
  have "nat (max (int (length xs) - 1) 0) = length xs - 1" by arith
  then show ?thesis
    by (simp add: jsSlice_def relativeIndex_def Let_def butlast_conv_take)
qed

lemma jsSliceFrom_last: "xs \<noteq> [] \<Longrightarrow> jsSliceFrom xs (- 1) = [last xs]"
proof -
  assume ne: "xs \<noteq> []"
  then have "relativeIndex (length xs) (- 1) = length xs - 1"
    by (cases xs) (simp_all add: relativeIndex_def)
  then have "jsSliceFrom xs (- 1) = drop (length xs - 1) xs"
    by (simp add: jsSliceFrom_def)
  also have "\<dots> = [last xs]"
    using ne by (metis append_butlast_last_id append_eq_conv_conj length_butlast)
  finally show ?thesis .
qed

lemma bulletBody_eq:
  assumes cap: "0 \<le> cap" and k0: "0 \<le> keywordIndex st"
    and km: "keywordIndex st < int (length ms)"
  shows "bulletBody rnd ms cap per x st = bulletStep rnd ms (min (nat cap) per) x st"
proof -
  define k where "k = idx st"
  define n where "n = min (min (nat cap) per) (length ms - k)"
  have ki: "keywordIndex st = int k"
    using k0 by (simp add: k_def idx_def)
  have klt: "k < length ms" using km ki by simp
  have num: "min cap (min (int per) (int (length ms) - keywordIndex st)) = int n"
    using cap klt unfolding ki n_def by (auto simp: min_def)
  have sl: "jsSlice ms (keywordIndex st) (keywordIndex st + int n) = take n (drop k ms)"
    using jsSlice_window[of "int k" ms "int n"] klt by (simp add: ki)
  have len: "length (take n (drop k ms)) = n"
    by (simp add: n_def)
  show ?thesis
  proof (cases "n = 0")
    case True
    then show ?thesis
      unfolding bulletBody_def bulletStep_def Let_def num sl k_def[symmetric] n_def[symmetric]
      by simp
  next
    case False
    then show ?thesis
      unfolding bulletBody_def bulletStep_def Let_def num sl k_def[symmetric] n_def[symmetric] len
      by (simp add: ki)
  qed
qed

lemma bulletLoop_Cons:
  assumes "0 \<le> cap" and "0 \<le> keywordIndex st"
  shows "bulletLoop rnd ms cap per (x # xs) st =
     (if keywordIndex st < int (length ms)
      then bulletLoop rnd ms cap per xs (bulletStep rnd ms (min (nat cap) per) x st)
      else st)"
  using assms by (simp add: bulletBody_eq)

declare bulletLoop.simps(2) [simp del]

lemma keywordIndex_idx: "0 \<le> keywordIndex st \<Longrightarrow> keywordIndex st = int (idx st)"
  by (simp add: idx_def)

lemma bulletStep_nonneg:
  "0 \<le> keywordIndex st \<Longrightarrow> 0 \<le> keywordIndex (bulletStep rnd ms q x st)"
  by (simp add: bulletStep_def Let_def)

lemma idx_keywordIndex_update [simp]: "idx (st\<lparr>keywordIndex := k\<rparr>) = nat k"
  by (simp add: idx_def)

lemma idx_other_update [simp]:
  "idx (st\<lparr>loopLines := l\<rparr>) = idx st"
  "idx (st\<lparr>loopAdded := a\<rparr>) = idx st"
  "idx (st\<lparr>draws := d\<rparr>) = idx st"
  by (simp_all add: idx_def)

lemma idx_bulletStep:
  "idx (bulletStep rnd ms q x st) = idx st + min q (length ms - idx st)"
proof -
  have "nat (int a + int b) = a + b" for a b :: nat
    by (rule nat_int_add)
  then show ?thesis
    by (simp add: bulletStep_def Let_def del: of_nat_min)
qed

lemma bulletStep_index:
  "idx st \<le> length ms \<Longrightarrow>
   idx (bulletStep rnd ms q x st) = min (length ms) (idx st + q)"
  unfolding idx_bulletStep by (auto simp: min_def)

lemma bulletStep_added:
  "loopAdded (bulletStep rnd ms q x st) + idx st
     = loopAdded st + idx (bulletStep rnd ms q x st)"
  unfolding idx_bulletStep by (simp add: bulletStep_def Let_def)

lemma bulletStep_length:
  "length (loopLines (bulletStep rnd ms q x st)) = length (loopLines st)"
  by (simp add: bulletStep_def Let_def)

lemma bulletStep_other:
  "y \<noteq> x \<Longrightarrow> loopLines (bulletStep rnd ms q x st) ! y = loopLines st ! y"
  by (simp add: bulletStep_def Let_def)

lemma bulletBody_length:
  "length (loopLines (bulletBody rnd ms cap per x st)) = length (loopLines st)"
  by (simp add: bulletBody_def Let_def)

lemma bulletBody_other:
  "y \<noteq> x \<Longrightarrow> loopLines (bulletBody rnd ms cap per x st) ! y = loopLines st ! y"
  by (simp add: bulletBody_def Let_def)

lemma bulletLoop_length:
  "length (loopLines (bulletLoop rnd ms cap per xs st)) = length (loopLines st)"
proof (induction xs arbitrary: st)
  case Nil
  then show ?case by simp
next
  case (Cons x xs)
  show ?case
    using Cons.IH[of "bulletBody rnd ms cap per x st"]
    by (simp add: bulletLoop.simps(2) bulletBody_length)
qed

lemma bulletLoop_other:
  "y \<notin> set xs \<Longrightarrow> loopLines (bulletLoop rnd ms cap per xs st) ! y = loopLines st ! y"
proof (induction xs arbitrary: st)
  case Nil
  then show ?case by simp
next
  case (Cons x xs)
  then have "y \<noteq> x" and "y \<notin> set xs" by simp_all
  then show ?case
    using Cons.IH[of "bulletBody rnd ms cap per x st"]
    by (simp add: bulletLoop.simps(2) bulletBody_other)
qed

lemma bulletLoop_index:
  assumes "0 \<le> cap" and "0 \<le> keywordIndex st" and "idx st \<le> length ms"
  shows "0 \<le> keywordIndex (bulletLoop rnd ms cap per xs st) \<and>
         idx (bulletLoop rnd ms cap per xs st)
           = min (length ms) (idx st + length xs * min (nat cap) per)"
  using assms(2,3)
proof (induction xs arbitrary: st)
  case Nil
  then show ?case by simp
next
  case (Cons x xs)
  define q where "q = min (nat cap) per"
  have ki: "keywordIndex st = int (idx st)"
    using Cons.prems(1) by (rule keywordIndex_idx)
  show ?case
  proof (cases "idx st < length ms")
    case False
    then have "\<not> keywordIndex st < int (length ms)" using ki by simp
    then show ?thesis
      using Cons.prems False
      by (simp add: bulletLoop_Cons[OF assms(1) Cons.prems(1)])
  next
    case True
    then have lt: "keywordIndex st < int (length ms)" using ki by simp
    define st1 where "st1 = bulletStep rnd ms q x st"
    have n1: "0 \<le> keywordIndex st1"
      unfolding st1_def using Cons.prems(1) by (rule bulletStep_nonneg)
    have k1: "idx st1 = min (length ms) (idx st + q)"
      unfolding st1_def using Cons.prems(2) by (rule bulletStep_index)
    then have "idx st1 \<le> length ms" by simp
    then have ih: "0 \<le> keywordIndex (bulletLoop rnd ms cap per xs st1) \<and>
        idx (bulletLoop rnd ms cap per xs st1)
        = min (length ms) (idx st1 + length xs * q)"
      unfolding q_def using n1 by (intro Cons.IH)
    have "min (length ms) (idx st1 + length xs * q)
        = min (length ms) (idx st + length (x # xs) * q)"
      unfolding k1 by (simp add: min_def)
    then show ?thesis
      using ih lt
      by (simp add: bulletLoop_Cons[OF assms(1) Cons.prems(1)] st1_def[symmetric]
            q_def[symmetric])
  qed
qed

lemma bulletLoop_added:
  assumes "0 \<le> cap" and "0 \<le> keywordIndex st"
  shows "loopAdded (bulletLoop rnd ms cap per xs st) + idx st
     = loopAdded st + idx (bulletLoop rnd ms cap per xs st)"
  using assms(2)
proof (induction xs arbitrary: st)
  case Nil
  then show ?case by simp
next
  case (Cons x xs)
  define st1 where "st1 = bulletStep rnd ms (min (nat cap) per) x st"
  have n1: "0 \<le> keywordIndex st1"
    unfolding st1_def using Cons.prems by (rule bulletStep_nonneg)
  show ?case
    using Cons.IH[OF n1] bulletStep_added[of rnd ms "min (nat cap) per" x st]
    by (simp add: bulletLoop_Cons[OF assms(1) Cons.prems] st1_def[symmetric])
qed

lemma bulletStep_draws:
  "draws (bulletStep rnd ms q x st)
     = (if min q (length ms - idx st) = 0 then draws st else Suc (draws st))"
proof -
  define n where "n = min q (length ms - idx st)"
  show ?thesis
    unfolding bulletStep_def Let_def n_def[symmetric]
    by (cases "n = 0") simp_all
qed

lemma bulletStep_line:
  "x < length (loopLines st) \<Longrightarrow>
   loopLines (bulletStep rnd ms q x st) ! x =
     (let n = min q (length ms - idx st)
      in if n = 0 then loopLines st ! x
         else injectInto (loopLines st ! x)
                (injectionOf (getPhrase rnd (draws st)) (take n (drop (idx st) ms))))"
proof -
  assume x: "x < length (loopLines st)"
  define n where "n = min q (length ms - idx st)"
  show ?thesis
    unfolding bulletStep_def Let_def n_def[symmetric]
    using x by (cases "n = 0") simp_all
qed

lemma bulletLoop_bullet:
  assumes "0 \<le> cap" and "q = min (nat cap) per"
    and "distinct xs" and "\<forall>x \<in> set xs. x < length (loopLines st)"
    and "0 \<le> keywordIndex st" and "idx st \<le> length ms" and "j < length xs"
  shows "loopLines (bulletLoop rnd ms cap per xs st) ! (xs ! j) =
     (let s = min (length ms) (idx st + j * q);
          n = min q (length ms - s)
      in if n = 0 then loopLines st ! (xs ! j)
         else injectInto (loopLines st ! (xs ! j))
                (injectionOf (getPhrase rnd (draws st + j)) (take n (drop s ms))))"
  using assms(3-7)
proof (induction xs arbitrary: st j)
  case Nil
  then show ?case by simp
next
  case (Cons x xs)
  define m where "m = length ms"
  define k where "k = idx st"
  have km: "k \<le> m" using Cons.prems(4) by (simp add: k_def m_def)
  have ki: "keywordIndex st = int k"
    unfolding k_def using Cons.prems(3) by (rule keywordIndex_idx)
  note LC = bulletLoop_Cons[OF assms(1) Cons.prems(3), of rnd ms per x xs,
      unfolded assms(2)[symmetric]]
  show ?case
  proof (cases "k < m")
    case False
    then have "k = m" using km by simp
    then have "min m (k + j * q) = m" by simp
    moreover have "\<not> keywordIndex st < int (length ms)"
      using False ki by (simp add: m_def)
    ultimately show ?thesis
      by (simp add: LC Let_def m_def[symmetric] k_def[symmetric])
  next
    case True
    then have lt: "keywordIndex st < int (length ms)" using ki by (simp add: m_def)
    define st1 where "st1 = bulletStep rnd ms q x st"
    have loop: "bulletLoop rnd ms cap per (x # xs) st = bulletLoop rnd ms cap per xs st1"
      using lt by (simp add: LC st1_def)
    have xnot: "x \<notin> set xs" and dxs: "distinct xs" using Cons.prems(1) by simp_all
    have xlen: "x < length (loopLines st)" using Cons.prems(2) by simp
    have n1: "0 \<le> keywordIndex st1"
      unfolding st1_def using Cons.prems(3) by (rule bulletStep_nonneg)
    have k1: "idx st1 = min m (k + q)"
      unfolding st1_def m_def k_def using Cons.prems(4) by (rule bulletStep_index)
    have len1: "length (loopLines st1) = length (loopLines st)"
      unfolding st1_def by (rule bulletStep_length)
    show ?thesis
    proof (cases j)
      case 0
      have "loopLines (bulletLoop rnd ms cap per xs st1) ! x = loopLines st1 ! x"
        using xnot by (rule bulletLoop_other)
      also have "\<dots> = (let n = min q (m - k)
          in if n = 0 then loopLines st ! x
             else injectInto (loopLines st ! x)
                    (injectionOf (getPhrase rnd (draws st)) (take n (drop k ms))))"
        unfolding st1_def m_def k_def using xlen by (rule bulletStep_line)
      finally have l: "loopLines (bulletLoop rnd ms cap per xs st1) ! x = (let n = min q (m - k)
          in if n = 0 then loopLines st ! x
             else injectInto (loopLines st ! x)
                    (injectionOf (getPhrase rnd (draws st)) (take n (drop k ms))))" .
      have e: "min m (k + 0 * q) = k" using km by simp
      show ?thesis
        unfolding loop 0 Let_def m_def[symmetric] k_def[symmetric]
        using l by (simp only: e nth_Cons_0 Let_def add_0_right)
    next
      case (Suc j')
      then have j': "j' < length xs" using Cons.prems(5) by simp
      have neq: "xs ! j' \<noteq> x" using xnot j' by (metis nth_mem)
      have base: "loopLines st1 ! (xs ! j') = loopLines st ! (xs ! j')"
        unfolding st1_def using neq by (rule bulletStep_other)
      have rng: "\<forall>y \<in> set xs. y < length (loopLines st1)"
        using Cons.prems(2) len1 by simp
      have k1m: "idx st1 \<le> length ms" using k1 by (simp add: m_def)
      have ih: "loopLines (bulletLoop rnd ms cap per xs st1) ! (xs ! j') =
         (let s = min m (idx st1 + j' * q);
              n = min q (m - s)
          in if n = 0 then loopLines st1 ! (xs ! j')
             else injectInto (loopLines st1 ! (xs ! j'))
                    (injectionOf (getPhrase rnd (draws st1 + j')) (take n (drop s ms))))"
        unfolding m_def by (rule Cons.IH[OF dxs rng n1 k1m j'])
      have s_eq: "min m (idx st1 + j' * q) = min m (k + Suc j' * q)"
        unfolding k1 by (simp add: min_def)
      have d_eq: "draws st1 + j' = draws st + Suc j'"
        if "min q (m - min m (k + Suc j' * q)) \<noteq> 0"
      proof -
        from that have "0 < q" and "k + Suc j' * q < m" by (auto simp: min_def split: if_splits)
        then have "min q (m - k) \<noteq> 0" by (auto simp: min_def)
        then have "draws st1 = Suc (draws st)"
          unfolding st1_def bulletStep_draws m_def k_def by (rule if_not_P)
        then show ?thesis by simp
      qed
      define n where "n = min q (m - min m (k + Suc j' * q))"
      have goal: "loopLines (bulletLoop rnd ms cap per xs st1) ! (xs ! j') =
         (if n = 0 then loopLines st ! (xs ! j')
          else injectInto (loopLines st ! (xs ! j'))
                 (injectionOf (getPhrase rnd (draws st + Suc j'))
                    (take n (drop (min m (k + Suc j' * q)) ms))))"
      proof (cases "n = 0")
        case True
        then show ?thesis
          using ih unfolding Let_def s_eq n_def[symmetric] base by simp
      next
        case False
        then have "draws st1 + j' = draws st + Suc j'"
          using d_eq by (simp add: n_def)
        then show ?thesis
          using ih False unfolding Let_def s_eq n_def[symmetric] base by simp
      qed
      show ?thesis
        unfolding loop Suc Let_def m_def[symmetric] k_def[symmetric]
          n_def[symmetric] nth_Cons_Suc
        by (rule goal)
    qed
  qed
qed

subsection \<open>The new bullets, and the whole run\<close>

declare overflowLoop.simps [simp del]

lemma overflowLoop_eq:
  "overflowLoop remaining i (bs, n) =
     (bs @ map (\<lambda>k. newBullet (take 3 (drop (i + 3 * k) remaining)))
             [0..<(length remaining - i + 2) div 3],
      n + (length remaining - i))"
proof (induction remaining i "(bs, n)" arbitrary: bs n rule: overflowLoop.induct)
  case (1 remaining i newBullets n)
  show ?case
  proof (cases "i < length remaining")
    case False
    then have "(length remaining - i + 2) div 3 = 0" by simp
    then show ?thesis using False by (simp add: overflowLoop.simps)
  next
    case True
    define chunk where "chunk = slice remaining i (i + 3)"
    have ch: "chunk = take 3 (drop i remaining)"
      by (simp add: chunk_def slice_take_drop)
    have cl: "length chunk = min 3 (length remaining - i)"
      by (simp add: ch min.commute)
    have cnt: "(length remaining - i + 2) div 3 = Suc ((length remaining - (i + 3) + 2) div 3)"
    proof (cases "3 \<le> length remaining - i")
      case True
      then obtain e where e: "length remaining - i = e + 3"
        by (metis le_add_diff_inverse2)
      then have "length remaining - (i + 3) = e" by simp
      then show ?thesis by (simp add: e)
    next
      case False
      then have "length remaining - i = 1 \<or> length remaining - i = 2"
        using True by linarith
      moreover have "length remaining - (i + 3) = 0" using False by simp
      ultimately show ?thesis by auto
    qed
    have ih: "overflowLoop remaining (i + 3) (newBullets @ [newBullet chunk], n + length chunk) =
       ((newBullets @ [newBullet chunk]) @
          map (\<lambda>k. newBullet (take 3 (drop (i + 3 + 3 * k) remaining)))
             [0..<(length remaining - (i + 3) + 2) div 3],
        n + length chunk + (length remaining - (i + 3)))"
      using "1.hyps"[OF True chunk_def] by simp
    have sum: "n + length chunk + (length remaining - (i + 3)) = n + (length remaining - i)"
      using True cl by (simp add: min_def)
    have "overflowLoop remaining i (newBullets, n) =
        overflowLoop remaining (i + 3) (newBullets @ [newBullet chunk], n + length chunk)"
      using True by (simp add: overflowLoop.simps[of remaining i] chunk_def Let_def)
    also have "\<dots> = (newBullets @
          map (\<lambda>k. newBullet (take 3 (drop (i + 3 * k) remaining)))
             [0..<Suc ((length remaining - (i + 3) + 2) div 3)],
        n + (length remaining - i))"
      unfolding ih sum
      by (simp add: map_upt_Suc ch add.assoc del: upt_Suc)
    finally show ?thesis by (simp only: cnt)
  qed
qed




lemma injectAll_done:
  assumes st: "st = bulletLoop rnd ms cap (keywordsPerBulletOf (length ms) (length bullets))
                      bullets \<lparr>loopLines = ls, keywordIndex = 0, loopAdded = 0, draws = 0\<rparr>"
    and fin: "\<not> keywordIndex st < int (length ms)"
  shows "injectAll rnd ms cap ls bullets = (loopLines st, loopAdded st)"
  unfolding injectAll_def Let_def st[symmetric] using fin by simp

lemma loop_from_start:
  assumes "0 \<le> cap"
    and st: "st = bulletLoop rnd ms cap per bullets
                      \<lparr>loopLines = ls, keywordIndex = 0, loopAdded = 0, draws = 0\<rparr>"
  shows "keywordIndex st = int (loopAdded st)"
    and "loopAdded st = min (length ms) (length bullets * min (nat cap) per)"
proof -
  define st0 where "st0 = \<lparr>loopLines = ls, keywordIndex = 0, loopAdded = 0, draws = 0\<rparr>"
  have st': "st = bulletLoop rnd ms cap per bullets st0" by (simp add: st st0_def)
  have z: "0 \<le> keywordIndex st0" "idx st0 \<le> length ms" "idx st0 = 0" "loopAdded st0 = 0"
    by (simp_all add: st0_def idx_def)
  have i: "0 \<le> keywordIndex st \<and>
      idx st = min (length ms) (idx st0 + length bullets * min (nat cap) per)"
    unfolding st' using assms(1) z(1) z(2) by (rule bulletLoop_index)
  have a: "loopAdded st + idx st0 = loopAdded st0 + idx st"
    unfolding st' using assms(1) z(1) by (rule bulletLoop_added)
  have e: "loopAdded st = idx st" using a z by simp
  have "keywordIndex st = int (idx st)"
    using i by (intro keywordIndex_idx) simp
  then show "keywordIndex st = int (loopAdded st)"
    by (simp only: e)
  show "loopAdded st = min (length ms) (length bullets * min (nat cap) per)"
    using i e z by simp
qed

lemma injectAll_added:
  assumes "0 \<le> cap"
  shows "snd (injectAll rnd ms cap ls bullets) = length ms"
proof -
  define st where "st = bulletLoop rnd ms cap (keywordsPerBulletOf (length ms) (length bullets))
      bullets \<lparr>loopLines = ls, keywordIndex = 0, loopAdded = 0, draws = 0\<rparr>"
  have k: "keywordIndex st = int (loopAdded st)"
    using assms st_def by (rule loop_from_start(1))
  have a: "loopAdded st \<le> length ms"
    using loop_from_start(2)[OF assms st_def] by simp
  show ?thesis
  proof (cases "keywordIndex st < int (length ms)")
    case True
    have "jsSliceFrom ms (keywordIndex st) = drop (loopAdded st) ms"
      unfolding k by (simp add: jsSliceFrom_nonneg)
    then show ?thesis
      unfolding injectAll_def Let_def st_def[symmetric]
      using True a by (simp add: overflowLoop_eq split: prod.splits)
  next
    case False
    then show ?thesis
      unfolding injectAll_def Let_def st_def[symmetric]
      using a k by simp
  qed
qed

lemma present_missing_count:
  "length (presentKeywordsOf h t ks) + length (missingKeywordsOf h t ks) = length ks"
  unfolding presentKeywordsOf_def missingKeywordsOf_def
  by (rule sum_length_filter_compl)

lemma bulletLinesOf_distinct: "distinct (bulletLinesOf ls)"
  by (simp add: bulletLinesOf_def)

lemma bulletLinesOf_range: "\<forall>x \<in> set (bulletLinesOf ls). x < length ls"
  by (simp add: bulletLinesOf_def)

lemma keywordsPerBulletOf_ceiling:
  assumes "0 < b"
  shows "int (keywordsPerBulletOf m b) = \<lceil>real m / real b\<rceil>"
proof -
  define k where "k = (m + b - 1) div b"
  have lo: "k * b \<le> m + b - 1"
    unfolding k_def by (rule div_times_less_eq_dividend)
  have hi: "m + b - 1 < (k + 1) * b"
    unfolding k_def using assms by (simp add: dividend_less_div_times)
  from hi have "m < k * b + 1" using assms by simp
  then have mk: "m \<le> k * b" by simp
  have up: "real m / real b \<le> real k"
  proof -
    have "real m \<le> real (k * b)" using mk by (rule of_nat_mono)
    then show ?thesis using assms by (simp add: divide_le_eq)
  qed
  have dn: "real k - 1 < real m / real b"
  proof -
    have "k * b < m + b" using lo assms by simp
    then have "real (k * b) < real (m + b)" by (simp only: of_nat_less_iff)
    then have "real k * real b - real b < real m" by simp
    then have "(real k - 1) * real b < real m" by (simp add: algebra_simps)
    then show ?thesis using assms by (simp add: less_divide_eq)
  qed
  have "\<lceil>real m / real b\<rceil> = int k"
    using up dn by (intro ceiling_unique) simp_all
  then show ?thesis by (simp add: keywordsPerBulletOf_def k_def)
qed

lemma distributeText_injected:
  assumes "experienceLines h t = Some (expStart, expEnd, ls)"
    and "bulletLinesOf ls \<noteq> []" and "missingKeywordsOf h t ks \<noteq> []"
    and "injectAll rnd (missingKeywordsOf h t ks) cap ls (bulletLinesOf ls) = (ls', n)"
  shows "distributeText h rnd t ks cap =
           \<lparr>tailoredCV = Some (slice t 0 expStart @ join [LF] ls' @ drop expEnd t),
            distributionStats =
              Some \<lparr>total = length ks,
                    alreadyPresent = length ks - length (missingKeywordsOf h t ks),
                    added = n, missing = length (missingKeywordsOf h t ks) - n\<rparr>\<rparr>"
proof -
  have p: "length (presentKeywordsOf h t ks) = length ks - length (missingKeywordsOf h t ks)"
    using present_missing_count[of h t ks] by simp
  show ?thesis
    using assms p by (simp add: distributeText_def Let_def)
qed

lemma distribute_nonempty:
  assumes "t \<noteq> []" and "ks \<noteq> []"
  shows "distributeHighPriorityKeywords h rnd (Some t) (Some ks) options =
     distributeText h rnd t ks (case maxKeywordsPerBulletOpt options of None \<Rightarrow> 3 | Some k \<Rightarrow> k)"
  using assms by (simp add: distributeHighPriorityKeywords_def)

lemma experienceLines_nonempty: "experienceLines h t = Some x \<Longrightarrow> t \<noteq> []"
  by (auto simp: experienceLines_def)

lemma missingKeywordsOf_nonempty: "missingKeywordsOf h t ks \<noteq> [] \<Longrightarrow> ks \<noteq> []"
  by (auto simp: missingKeywordsOf_def)

lemma run_injected:
  assumes sec: "experienceLines h t = Some (expStart, expEnd, ls)"
    and b1: "bulletLinesOf ls \<noteq> []" and m1: "missingKeywordsOf h t ks \<noteq> []"
    and ia: "injectAll rnd (missingKeywordsOf h t ks)
               (case maxKeywordsPerBulletOpt options of None \<Rightarrow> 3 | Some k \<Rightarrow> k)
               ls (bulletLinesOf ls) = (ls', n)"
  shows "distributeHighPriorityKeywords h rnd (Some t) (Some ks) options =
           \<lparr>tailoredCV = Some (slice t 0 expStart @ join [LF] ls' @ drop expEnd t),
            distributionStats =
              Some \<lparr>total = length ks,
                    alreadyPresent = length ks - length (missingKeywordsOf h t ks),
                    added = n, missing = length (missingKeywordsOf h t ks) - n\<rparr>\<rparr>"
proof -
  have tn: "t \<noteq> []" using sec by (rule experienceLines_nonempty)
  have kn: "ks \<noteq> []" using m1 by (rule missingKeywordsOf_nonempty)
  show ?thesis
    unfolding distribute_nonempty[OF tn kn]
    using sec b1 m1 ia by (rule distributeText_injected)
qed

subsection \<open>The samples, evaluated\<close>

lemmas wordEval = keywordPresent_def matchesWord_def boundaryAt_def matchesLiteral_def

lemma resume_heading: "findHeading h experienceHeadings 0 resume = Some (8, 12)"
  by (simp add: resume_def experienceHeadings_def matchesLiteral_def matchTail_def LF_def strEval)

lemma resume_next: "findHeading h nextSectionHeadings 0 (drop 20 resume) = Some (52, 8)"
  by (simp add: resume_def nextSectionHeadings_def matchesLiteral_def matchTail_def LF_def strEval)

lemma resume_section: "splitLines (slice resume 20 72) = resumeLines"
  by (simp add: slice_def resume_def splitLines_def LF_def str_def resumeLines_def)

lemma resume_lines: "experienceLines h resume = Some (20, 72, resumeLines)"
  unfolding experienceLines_def resume_heading
  by (simp add: Let_def resume_next resume_section)

lemma resume_bullets: "bulletLinesOf resumeLines = [0, 1]"
  by (simp add: bulletLinesOf_def isBulletLine_def trim_def trimStart_def trimEnd_def
        isBulletGlyph_def strEval upt_rec resumeLines_def)

lemma resume_lower:
  "toLowerCase h resume = str ''jane doe'' @ [LF] @ str ''experience'' @ [LF]
      @ str ''- built data pipelines.'' @ [LF]
      @ str ''- led the platform migration'' @ [LF]
      @ str ''skills'' @ [LF] @ str ''sql, excel'' @ [LF]"
  by (simp add: resume_def LF_def strEval)

lemma resume_missing6: "missingKeywordsOf h resume keywords6 = missing5"
  unfolding missingKeywordsOf_def resume_lower
  by (simp add: keywords6_def missing5_def wordEval LF_def strEval)


lemma resume_missing3: "missingKeywordsOf h resume keywords3 = keywords3"
  unfolding missingKeywordsOf_def resume_lower
  by (simp add: keywords3_def wordEval LF_def strEval)

lemmas injectEval = injectInto_def injectionOf_def getPhrase_def phrases_def countUp_def
  jsSlice_def jsSliceFrom_def relativeIndex_def endsWith_def trimEnd_def

lemma inject5_first:
  "injectInto (resumeLines ! 0) (injectionOf (getPhrase countUp 0) (take 3 (drop 0 missing5)))
     = str ''- Built data pipelines leveraging python, kubernetes, and aws.''"
  by (simp add: injectEval resumeLines_def missing5_def strEval)

lemma inject5_second:
  "injectInto (resumeLines ! 1) (injectionOf (getPhrase countUp 1) (take 2 (drop 3 missing5)))
     = str ''- Led the platform migration utilizing docker and terraform''"
  by (simp add: injectEval resumeLines_def missing5_def strEval)

lemma inject3_first:
  "injectInto (resumeLines ! 0) (injectionOf (getPhrase countUp 0) (take 2 (drop 0 keywords3)))
     = str ''- Built data pipelines leveraging python and kubernetes.''"
  by (simp add: injectEval resumeLines_def keywords3_def strEval)

lemma inject3_second:
  "injectInto (resumeLines ! 1) (injectionOf (getPhrase countUp 1) (take 1 (drop 2 keywords3)))
     = str ''- Led the platform migration, utilizing aws''"
  by (simp add: injectEval resumeLines_def keywords3_def strEval)

lemma list2_nth: "length xs = 2 \<Longrightarrow> xs = [xs ! 0, xs ! 1]"
  by (cases xs; cases "tl xs") auto










lemma resume_reassembled5:
  "slice resume 0 20 @ join [LF]
      [str ''- Built data pipelines leveraging python, kubernetes, and aws.'',
       str ''- Led the platform migration utilizing docker and terraform'']
     @ drop 72 resume = tailored5"
  by (simp add: slice_def resume_def tailored5_def str_def)

lemma resume_reassembled3:
  "slice resume 0 20 @ join [LF]
      [str ''- Built data pipelines leveraging python and kubernetes.'',
       str ''- Led the platform migration, utilizing aws'']
     @ drop 72 resume = tailored3"
  by (simp add: slice_def resume_def tailored3_def str_def)

lemma step5_first:
  "bulletStep countUp missing5 3 0 state0 =
   \<lparr>loopLines = [str ''- Built data pipelines leveraging python, kubernetes, and aws.'',
                 str ''- Led the platform migration''],
    keywordIndex = 3, loopAdded = 3, draws = 1\<rparr>"
  by (simp add: bulletStep_def idx_def state0_def Let_def missing5_def resumeLines_def
        injectEval strEval)

lemma step5_second:
  "bulletStep countUp missing5 3 (Suc 0)
     \<lparr>loopLines = [str ''- Built data pipelines leveraging python, kubernetes, and aws.'',
                 str ''- Led the platform migration''],
      keywordIndex = 3, loopAdded = 3, draws = Suc 0\<rparr> =
   \<lparr>loopLines = [str ''- Built data pipelines leveraging python, kubernetes, and aws.'',
                 str ''- Led the platform migration utilizing docker and terraform''],
    keywordIndex = 5, loopAdded = 5, draws = 2\<rparr>"
  by (simp add: bulletStep_def idx_def Let_def missing5_def injectEval strEval)

lemma resume_inject5:
  "injectAll countUp missing5 3 resumeLines [0, 1] =
     ([str ''- Built data pipelines leveraging python, kubernetes, and aws.'',
       str ''- Led the platform migration utilizing docker and terraform''], 5)"
proof -
  have len5: "length missing5 = 5" by (simp add: missing5_def)
  have len2: "length [0::nat, 1] = 2" by simp
  have p3: "keywordsPerBulletOf 5 (length [0::nat, 1]) = 3"
    unfolding len2 by (simp add: keywordsPerBulletOf_def)
  have k0: "keywordIndex state0 = 0" by (simp add: state0_def)
  have "bulletLoop countUp missing5 3 3 [0, 1] state0 =
     \<lparr>loopLines = [str ''- Built data pipelines leveraging python, kubernetes, and aws.'',
                 str ''- Led the platform migration utilizing docker and terraform''],
      keywordIndex = 5, loopAdded = 5, draws = 2\<rparr>"
    by (simp add: bulletLoop_Cons len5 k0 step5_first step5_second)
  then show ?thesis
    unfolding injectAll_def len5 p3 Let_def state0_def[symmetric] by simp
qed

lemma resume_run6:
  "distributeHighPriorityKeywords h countUp (Some resume) (Some keywords6) defaults =
     \<lparr>tailoredCV = Some tailored5,
      distributionStats = Some \<lparr>total = 6, alreadyPresent = 1, added = 5, missing = 0\<rparr>\<rparr>"
proof -
  have c: "(case maxKeywordsPerBulletOpt defaults of None \<Rightarrow> 3 | Some k \<Rightarrow> k) = 3"
    by (simp add: defaults_def)
  have b: "bulletLinesOf resumeLines \<noteq> []" by (simp add: resume_bullets)
  have m: "missingKeywordsOf h resume keywords6 \<noteq> []" by (simp add: resume_missing6 missing5_def)
  have i: "injectAll countUp (missingKeywordsOf h resume keywords6)
        (case maxKeywordsPerBulletOpt defaults of None \<Rightarrow> 3 | Some k \<Rightarrow> k) resumeLines
        (bulletLinesOf resumeLines) =
     ([str ''- Built data pipelines leveraging python, kubernetes, and aws.'',
       str ''- Led the platform migration utilizing docker and terraform''], 5)"
    unfolding resume_missing6 resume_bullets c by (rule resume_inject5)
  have len5: "length missing5 = 5" by (simp add: missing5_def)
  have len6: "length keywords6 = 6" by (simp add: keywords6_def)
  show ?thesis
    unfolding run_injected[OF resume_lines b m i] resume_missing6 len5 len6
      resume_reassembled5
    by simp
qed

text \<open>The run with the cap -1. The first bullet takes \<open>slice(0, -1)\<close>, four keywords,
  and leaves the index at -1; the second takes \<open>slice(-1, -2)\<close>, nothing, and leaves it at
  -2; \<open>slice(-2)\<close> is the last two keywords, of which the first is in the first bullet
  already.\<close>

lemma negative_first:
  "bulletBody countUp missing5 (- 1) 3 0 state0 =
   \<lparr>loopLines = [str ''- Built data pipelines leveraging python, kubernetes, aws, and docker.'',
                 str ''- Led the platform migration''],
    keywordIndex = - 1, loopAdded = 4, draws = 1\<rparr>"
  by (simp add: bulletBody_def state0_def Let_def missing5_def resumeLines_def
        injectEval strEval)

lemma negative_second:
  "bulletBody countUp missing5 (- 1) 3 (Suc 0)
     \<lparr>loopLines = [str ''- Built data pipelines leveraging python, kubernetes, aws, and docker.'',
                 str ''- Led the platform migration''],
      keywordIndex = - 1, loopAdded = 4, draws = Suc 0\<rparr> =
   \<lparr>loopLines = [str ''- Built data pipelines leveraging python, kubernetes, aws, and docker.'',
                 str ''- Led the platform migration''],
    keywordIndex = - 2, loopAdded = 4, draws = 1\<rparr>"
  by (simp add: bulletBody_def Let_def missing5_def jsSlice_def relativeIndex_def)

lemma negative_loop:
  "bulletLoop countUp missing5 (- 1) 3 [0, 1] state0 =
   \<lparr>loopLines = [str ''- Built data pipelines leveraging python, kubernetes, aws, and docker.'',
                 str ''- Led the platform migration''],
    keywordIndex = - 2, loopAdded = 4, draws = 1\<rparr>"
proof -
  have len5: "length missing5 = 5" by (simp add: missing5_def)
  have k0: "keywordIndex state0 = 0" by (simp add: state0_def)
  show ?thesis
    by (simp add: bulletLoop.simps(2) len5 k0 negative_first negative_second)
qed




lemma negative_inject:
  "injectAll countUp missing5 (- 1) resumeLines [0, 1] =
     ([str ''- Built data pipelines leveraging python, kubernetes, aws, and docker.'',
       str ''- Led the platform migration'',
       [8226] @ str '' Applied docker and terraform methodologies to drive cross-functional improvements''],
      6)"
proof -
  have len5: "length missing5 = 5" by (simp add: missing5_def)
  have len2: "length [0::nat, 1] = 2" by simp
  have p3: "keywordsPerBulletOf 5 (length [0::nat, 1]) = 3"
    unfolding len2 by (simp add: keywordsPerBulletOf_def)
  have r: "jsSliceFrom missing5 (- 2) = [str ''docker'', str ''terraform'']"
    by (simp add: jsSliceFrom_def relativeIndex_def missing5_def)
  have o: "overflowLoop [str ''docker'', str ''terraform''] 0 ([], 4) =
      ([[8226] @ str '' Applied docker and terraform methodologies to drive cross-functional improvements''], 6)"
    by (simp add: overflowLoop_eq upt_rec newBullet_def str_def)
  show ?thesis
    unfolding injectAll_def len5 p3 Let_def state0_def[symmetric] negative_loop
    by (simp add: r o spliceIn_def)
qed

lemma resume_reassembledNegative:
  "slice resume 0 20 @ join [LF]
      [str ''- Built data pipelines leveraging python, kubernetes, aws, and docker.'',
       str ''- Led the platform migration'',
       [8226] @ str '' Applied docker and terraform methodologies to drive cross-functional improvements'']
     @ drop 72 resume = tailoredNegative"
  by (simp add: slice_def resume_def tailoredNegative_def str_def)

lemma resume_runNegative:
  "distributeHighPriorityKeywords h countUp (Some resume) (Some keywords6) negativeCap =
     \<lparr>tailoredCV = Some tailoredNegative,
      distributionStats = Some \<lparr>total = 6, alreadyPresent = 1, added = 6, missing = 0\<rparr>\<rparr>"
proof -
  have c: "(case maxKeywordsPerBulletOpt negativeCap of None \<Rightarrow> 3 | Some k \<Rightarrow> k) = - 1"
    by (simp add: negativeCap_def)
  have b: "bulletLinesOf resumeLines \<noteq> []" by (simp add: resume_bullets)
  have m: "missingKeywordsOf h resume keywords6 \<noteq> []" by (simp add: resume_missing6 missing5_def)
  have i: "injectAll countUp (missingKeywordsOf h resume keywords6)
        (case maxKeywordsPerBulletOpt negativeCap of None \<Rightarrow> 3 | Some k \<Rightarrow> k) resumeLines
        (bulletLinesOf resumeLines) =
     ([str ''- Built data pipelines leveraging python, kubernetes, aws, and docker.'',
       str ''- Led the platform migration'',
       [8226] @ str '' Applied docker and terraform methodologies to drive cross-functional improvements''],
      6)"
    unfolding resume_missing6 resume_bullets c by (rule negative_inject)
  have len5: "length missing5 = 5" by (simp add: missing5_def)
  have len6: "length keywords6 = 6" by (simp add: keywords6_def)
  show ?thesis
    unfolding run_injected[OF resume_lines b m i] resume_missing6 len5 len6
      resume_reassembledNegative
    by simp
qed

lemma noHeading_lines: "experienceLines h noHeadingResume = None"
  by (simp add: experienceLines_def noHeadingResume_def experienceHeadings_def
        matchesLiteral_def matchTail_def LF_def strEval)

lemma plain_heading: "findHeading h experienceHeadings 0 plainResume = Some (8, 12)"
  by (simp add: plainResume_def experienceHeadings_def matchesLiteral_def matchTail_def
        LF_def strEval)

lemma plain_next: "findHeading h nextSectionHeadings 0 (drop 20 plainResume) = None"
  by (simp add: plainResume_def nextSectionHeadings_def matchesLiteral_def matchTail_def
        LF_def strEval)

lemma plain_section:
  "splitLines (slice plainResume 20 (length plainResume)) = [str ''Built data pipelines with SQL'', []]"
  by (simp add: slice_def plainResume_def splitLines_def LF_def str_def)

lemma plain_lines:
  "experienceLines h plainResume = Some (20, 50, [str ''Built data pipelines with SQL'', []])"
proof -
  have len: "length plainResume = 50" by (simp add: plainResume_def str_def)
  show ?thesis
    unfolding experienceLines_def plain_heading
    using plain_section by (simp add: Let_def plain_next len)
qed

lemma plain_bullets: "bulletLinesOf [str ''Built data pipelines with SQL'', []] = []"
  by (simp add: bulletLinesOf_def isBulletLine_def trim_def trimStart_def trimEnd_def
        isBulletGlyph_def strEval upt_rec)

lemma plain_missing: "missingKeywordsOf h plainResume keywords6 = missing5"
  by (simp add: missingKeywordsOf_def plainResume_def keywords6_def missing5_def wordEval
        LF_def strEval)

lemma noHeading_missing: "missingKeywordsOf h noHeadingResume keywords6 = missing5"
  by (simp add: missingKeywordsOf_def noHeadingResume_def keywords6_def missing5_def wordEval
        LF_def strEval)

text \<open>The text and the keyword with letters of Latin-1: the text has no heading; the
  keyword in capitals is present in it for the host that knows these letters, and missing
  for the host that does not.\<close>

lemma accent_lines: "experienceLines h accentText = None"
  by (simp add: experienceLines_def accentText_def experienceHeadings_def
        matchesLiteral_def matchTail_def LF_def strEval)

lemma accent_present: "missingKeywordsOf latin1Host accentText [accentKeyword] = []"
  by (simp add: missingKeywordsOf_def accentText_def accentKeyword_def latin1Host_def wordEval
        strEval)

lemma accent_missing: "missingKeywordsOf asciiHost accentText [accentKeyword] = [accentKeyword]"
  by (simp add: missingKeywordsOf_def accentText_def accentKeyword_def asciiHost_def wordEval
        strEval)

text \<open>The long s is not folded into the ASCII letter S, so the keyword with the long s is
  missing from the text with the s.\<close>

lemma longS_lines: "experienceLines h longSText = None"
  by (simp add: experienceLines_def longSText_def experienceHeadings_def
        matchesLiteral_def matchTail_def LF_def strEval)

lemma longS_missing: "missingKeywordsOf latin1Host longSText [longSKeyword] = [longSKeyword]"
  by (simp add: missingKeywordsOf_def longSText_def longSKeyword_def latin1Host_def wordEval
        strEval)

subsection \<open>Claims on distribution\<close>

text \<open>
  C1, as stated: after every run on a text and a keyword list that are not empty,
  \<open>alreadyPresent + added + missing = total\<close>. It fails for a negative
  \<open>maxKeywordsPerBullet\<close>. On the sample resume with six keywords, of which one is
  present, and the cap -1, the first bullet takes four keywords and the new bullet takes
  the last two, so that \<open>added\<close> is 6 for five missing keywords, \<open>missing\<close> is 0, and the
  sum is 7 for a total of 6.
\<close>

theorem negative_cap_breaks_stats_sum:
  "resume \<noteq> [] \<and> keywords6 \<noteq> [] \<and>
   maxKeywordsPerBulletOpt negativeCap = Some (- 1) \<and>
   distributionStats (distributeHighPriorityKeywords asciiHost countUp (Some resume)
       (Some keywords6) negativeCap)
     = Some \<lparr>total = 6, alreadyPresent = 1, added = 6, missing = 0\<rparr> \<and>
   alreadyPresent \<lparr>total = 6, alreadyPresent = 1, added = 6, missing = 0\<rparr>
     + added \<lparr>total = 6, alreadyPresent = 1, added = 6, missing = 0\<rparr>
     + missing \<lparr>total = 6, alreadyPresent = 1, added = 6, missing = 0\<rparr>
     \<noteq> total \<lparr>total = 6, alreadyPresent = 1, added = 6, missing = 0\<rparr>"
  by (simp add: resume_runNegative) (simp add: resume_def keywords6_def negativeCap_def str_def)

text \<open>
  C1, amended. When \<open>maxKeywordsPerBullet\<close> (3 when the option is absent) is not negative,
  a run on a text that is not empty, with a keyword list that is not empty, returns
  statistics, and in them \<open>alreadyPresent + added + missing = total\<close>: when every keyword is
  present, when no experience heading is found, when the section has no bullet, and when
  keywords are injected, new bullets included.
\<close>

theorem stats_sum_to_total:
  assumes "t \<noteq> []" and "ks \<noteq> []"
    and "0 \<le> (case maxKeywordsPerBulletOpt options of None \<Rightarrow> 3 | Some k \<Rightarrow> k)"
  shows "(case distributionStats
                (distributeHighPriorityKeywords h rnd (Some t) (Some ks) options) of
            None \<Rightarrow> False
          | Some stats \<Rightarrow> alreadyPresent stats + added stats + missing stats = total stats)"
proof -
  define cap where "cap = (case maxKeywordsPerBulletOpt options of None \<Rightarrow> 3 | Some k \<Rightarrow> k)"
  define ms where "ms = missingKeywordsOf h t ks"
  have nonneg: "0 \<le> cap" using assms(3) by (simp add: cap_def)
  have r: "distributeHighPriorityKeywords h rnd (Some t) (Some ks) options
      = distributeText h rnd t ks cap"
    using assms by (simp add: distributeHighPriorityKeywords_def cap_def)
  have cnt: "length (presentKeywordsOf h t ks) + length ms = length ks"
    unfolding ms_def by (rule present_missing_count)
  show ?thesis
  proof (cases "length ms = 0")
    case True
    then show ?thesis
      using cnt by (simp add: r distributeText_def Let_def ms_def[symmetric])
  next
    case nz: False
    show ?thesis
    proof (cases "experienceLines h t")
      case None
      then show ?thesis
        using nz cnt by (simp add: r distributeText_def Let_def ms_def[symmetric])
    next
      case (Some sec)
      obtain expStart expEnd ls where sec: "sec = (expStart, expEnd, ls)"
        by (cases sec) auto
      show ?thesis
      proof (cases "length (bulletLinesOf ls) = 0")
        case True
        then show ?thesis
          using nz cnt Some sec by (simp add: r distributeText_def Let_def ms_def[symmetric])
      next
        case False
        obtain ls' n where ia: "injectAll rnd ms cap ls (bulletLinesOf ls) = (ls', n)"
          by (cases "injectAll rnd ms cap ls (bulletLinesOf ls)") auto
        have "n = length ms"
          using injectAll_added[OF nonneg, of rnd ms ls "bulletLinesOf ls"] ia by simp
        then show ?thesis
          using nz cnt Some sec False ia
          by (simp add: r distributeText_def Let_def ms_def[symmetric])
      qed
    qed
  qed
qed

theorem stats_sum_to_total_witness:
  "resume \<noteq> [] \<and> keywords6 \<noteq> [] \<and>
   (0::int) \<le> (case maxKeywordsPerBulletOpt defaults of None \<Rightarrow> 3 | Some k \<Rightarrow> k) \<and>
   distributionStats (distributeHighPriorityKeywords asciiHost countUp (Some resume)
       (Some keywords6) defaults)
     = Some \<lparr>total = 6, alreadyPresent = 1, added = 5, missing = 0\<rparr> \<and>
   (case distributionStats
           (distributeHighPriorityKeywords asciiHost countUp (Some resume) (Some keywords6)
              defaults) of
      None \<Rightarrow> False
    | Some stats \<Rightarrow> alreadyPresent stats + added stats + missing stats = total stats)"
proof -
  have tn: "resume \<noteq> []" by (simp add: resume_def str_def)
  have kn: "keywords6 \<noteq> []" by (simp add: keywords6_def)
  have c: "(0::int) \<le> (case maxKeywordsPerBulletOpt defaults of None \<Rightarrow> 3 | Some k \<Rightarrow> k)"
    by (simp add: defaults_def)
  have s: "distributionStats (distributeHighPriorityKeywords asciiHost countUp (Some resume)
       (Some keywords6) defaults) = Some \<lparr>total = 6, alreadyPresent = 1, added = 5, missing = 0\<rparr>"
    by (simp add: resume_run6)
  show ?thesis
    using tn kn c s stats_sum_to_total [OF tn kn c, of asciiHost countUp] by (intro conjI)
qed

text \<open>
  C4, as stated: each bullet receives exactly \<open>min(maxKeywordsPerBullet, perBullet,
  remaining)\<close> keywords. It fails for a negative \<open>maxKeywordsPerBullet\<close>. On the sample
  resume with two bullets and five missing keywords, \<open>perBullet\<close> is 3 and, with the cap
  -1, the minimum is -1; \<open>slice(0, -1)\<close> then gives the first bullet four keywords.
\<close>

theorem negative_cap_exceeds_quota:
  "experienceLines asciiHost resume = Some (20, 72, resumeLines) \<and>
   bulletLinesOf resumeLines = [0, 1] \<and>
   missingKeywordsOf asciiHost resume keywords6 = missing5 \<and>
   length missing5 = 5 \<and>
   keywordsPerBulletOf 5 2 = 3 \<and>
   min (- 1) (min (int (keywordsPerBulletOf 5 2)) (int (length missing5) - keywordIndex state0))
     = - 1 \<and>
   loopAdded (bulletBody countUp missing5 (- 1) (keywordsPerBulletOf 5 2) 0 state0) = 4 \<and>
   loopLines (bulletBody countUp missing5 (- 1) (keywordsPerBulletOf 5 2) 0 state0) ! 0
     = str ''- Built data pipelines leveraging python, kubernetes, aws, and docker.'' \<and>
   tailoredCV (distributeHighPriorityKeywords asciiHost countUp (Some resume) (Some keywords6)
       negativeCap) = Some tailoredNegative"
proof -
  have p3: "keywordsPerBulletOf 5 2 = 3" by (simp add: keywordsPerBulletOf_def)
  have len5: "length missing5 = 5" by (simp add: missing5_def)
  show ?thesis
    unfolding p3 negative_first resume_runNegative len5
    by (simp add: resume_lines resume_bullets resume_missing6 state0_def)
qed

text \<open>
  C4, amended. When \<open>maxKeywordsPerBullet\<close> is not negative, the experience section has
  \<open>b \<ge> 1\<close> bullets and \<open>m \<ge> 1\<close> keywords are missing, \<open>perBullet\<close> is the ceiling of
  \<open>m / b\<close>, and the loop gives the bullet number \<open>j\<close> the next \<open>min(maxKeywordsPerBullet,
  perBullet, remaining)\<close> keywords of the missing ones, where the bullets before it have
  taken \<open>min(m, j * min(maxKeywordsPerBullet, perBullet))\<close>: it rewrites the line of the
  bullet with them, or leaves it when that number is 0. No other line changes. When the
  bullets take every missing keyword, the run returns the text with the section made of
  these lines alone, \<open>added = m\<close> and \<open>missing = 0\<close>; so it does with two bullets, the cap 3
  and five missing keywords. The injected text is \<open>, phrase k\<close> for one keyword,
  \<open> phrase k1 and k2\<close> for two and \<open> phrase k1, k2, and k3\<close> for three; it goes before the
  full stop of a line that ends with one, and after the line, trimmed at its end,
  otherwise.
\<close>

theorem even_distribution:
  assumes sec: "experienceLines h t = Some (expStart, expEnd, ls)"
    and bl: "bullets = bulletLinesOf ls" and b1: "bullets \<noteq> []"
    and ms: "ms = missingKeywordsOf h t ks" and m1: "ms \<noteq> []"
    and cap: "cap = (case maxKeywordsPerBulletOpt options of None \<Rightarrow> 3 | Some k \<Rightarrow> k)"
    and nonneg: "0 \<le> cap"
    and per: "perBullet = keywordsPerBulletOf (length ms) (length bullets)"
    and st: "st = bulletLoop rnd ms cap perBullet bullets
                    \<lparr>loopLines = ls, keywordIndex = 0, loopAdded = 0, draws = 0\<rparr>"
  shows "int perBullet = \<lceil>real (length ms) / real (length bullets)\<rceil> \<and>
         (\<forall>j < length bullets.
            let taken = min (length ms) (j * min (nat cap) perBullet);
                numToAdd = min (nat cap) (min perBullet (length ms - taken))
            in loopLines st ! (bullets ! j) =
                 (if numToAdd = 0 then ls ! (bullets ! j)
                  else injectInto (ls ! (bullets ! j))
                         (injectionOf (getPhrase rnd j) (take numToAdd (drop taken ms))))) \<and>
         length (loopLines st) = length ls \<and>
         (\<forall>i. i \<notin> set bullets \<longrightarrow> loopLines st ! i = ls ! i) \<and>
         loopAdded st = min (length ms) (length bullets * min (nat cap) perBullet) \<and>
         keywordIndex st = int (loopAdded st) \<and>
         (length ms \<le> length bullets * min (nat cap) perBullet \<longrightarrow>
            distributeHighPriorityKeywords h rnd (Some t) (Some ks) options =
              \<lparr>tailoredCV = Some (slice t 0 expStart @ join [LF] (loopLines st) @ drop expEnd t),
               distributionStats =
                 Some \<lparr>total = length ks, alreadyPresent = length ks - length ms,
                       added = length ms, missing = 0\<rparr>\<rparr>) \<and>
         (length bullets = 2 \<and> cap = 3 \<and> length ms = 5 \<longrightarrow>
            distributeHighPriorityKeywords h rnd (Some t) (Some ks) options =
              \<lparr>tailoredCV = Some (slice t 0 expStart @ join [LF] (loopLines st) @ drop expEnd t),
               distributionStats =
                 Some \<lparr>total = length ks, alreadyPresent = length ks - 5,
                       added = 5, missing = 0\<rparr>\<rparr>) \<and>
         injectionOf p [k1] = str '', '' @ p @ str '' '' @ k1 \<and>
         injectionOf p [k1, k2] = str '' '' @ p @ str '' '' @ k1 @ str '' and '' @ k2 \<and>
         injectionOf p [k1, k2, k3] =
           str '' '' @ p @ str '' '' @ k1 @ str '', '' @ k2 @ str '', and '' @ k3 \<and>
         injectInto (line @ str ''.'') injection = line @ injection @ str ''.'' \<and>
         (\<not> endsWith line 46 \<longrightarrow> injectInto line injection = trimEnd line @ injection)"
proof -
  define st0 where "st0 = \<lparr>loopLines = ls, keywordIndex = 0, loopAdded = 0, draws = 0\<rparr>"
  define q where "q = min (nat cap) perBullet"
  have st': "st = bulletLoop rnd ms cap perBullet bullets st0"
    by (simp add: st st0_def)
  have bpos: "0 < length bullets" using b1 by simp
  have c1: "int perBullet = \<lceil>real (length ms) / real (length bullets)\<rceil>"
    unfolding per using bpos by (rule keywordsPerBulletOf_ceiling)
  have d: "distinct bullets" unfolding bl by (rule bulletLinesOf_distinct)
  have r: "\<forall>x \<in> set bullets. x < length (loopLines st0)"
    unfolding bl st0_def using bulletLinesOf_range[of ls] by simp
  have z0: "0 \<le> keywordIndex st0" and z1: "idx st0 \<le> length ms"
    by (simp_all add: st0_def idx_def)
  have c2: "\<forall>j < length bullets.
            let taken = min (length ms) (j * min (nat cap) perBullet);
                numToAdd = min (nat cap) (min perBullet (length ms - taken))
            in loopLines st ! (bullets ! j) =
                 (if numToAdd = 0 then ls ! (bullets ! j)
                  else injectInto (ls ! (bullets ! j))
                         (injectionOf (getPhrase rnd j) (take numToAdd (drop taken ms))))"
  proof (intro allI impI)
    fix j assume j: "j < length bullets"
    show "let taken = min (length ms) (j * min (nat cap) perBullet);
                numToAdd = min (nat cap) (min perBullet (length ms - taken))
            in loopLines st ! (bullets ! j) =
                 (if numToAdd = 0 then ls ! (bullets ! j)
                  else injectInto (ls ! (bullets ! j))
                         (injectionOf (getPhrase rnd j) (take numToAdd (drop taken ms))))"
    proof -
      have e1: "loopLines st0 = ls" and e2: "draws st0 + j = j"
        and e3: "idx st0 + j * min (nat cap) perBullet = j * min (nat cap) perBullet"
        by (simp_all add: st0_def idx_def)
      show ?thesis
        using bulletLoop_bullet[OF nonneg q_def d r z0 z1 j, of rnd]
        unfolding st' q_def e1 e2 e3 Let_def min.assoc .
    qed
  qed
  have c3: "length (loopLines st) = length ls"
    unfolding st' by (simp add: bulletLoop_length st0_def)
  have c4: "\<forall>i. i \<notin> set bullets \<longrightarrow> loopLines st ! i = ls ! i"
    unfolding st' by (simp add: bulletLoop_other st0_def)
  have ad: "loopAdded st = min (length ms) (length bullets * min (nat cap) perBullet)"
    using nonneg st by (rule loop_from_start(2))
  have ki: "keywordIndex st = int (loopAdded st)"
    using nonneg st by (rule loop_from_start(1))
  have c7: "distributeHighPriorityKeywords h rnd (Some t) (Some ks) options =
              \<lparr>tailoredCV = Some (slice t 0 expStart @ join [LF] (loopLines st) @ drop expEnd t),
               distributionStats =
                 Some \<lparr>total = length ks, alreadyPresent = length ks - length ms,
                       added = length ms, missing = 0\<rparr>\<rparr>"
    if enough: "length ms \<le> length bullets * min (nat cap) perBullet"
  proof -
    have a: "loopAdded st = length ms" using ad enough by simp
    have fin: "\<not> keywordIndex st < int (length ms)" by (simp add: ki a)
    have "injectAll rnd ms cap ls bullets = (loopLines st, loopAdded st)"
      using st[unfolded per] fin by (rule injectAll_done)
    then have ia: "injectAll rnd (missingKeywordsOf h t ks)
               (case maxKeywordsPerBulletOpt options of None \<Rightarrow> 3 | Some k \<Rightarrow> k)
               ls (bulletLinesOf ls) = (loopLines st, length ms)"
      by (simp only: a ms cap bl)
    show ?thesis
      using run_injected[OF sec b1[unfolded bl] m1[unfolded ms] ia]
      by (simp add: ms[symmetric])
  qed
  have c8: "distributeHighPriorityKeywords h rnd (Some t) (Some ks) options =
              \<lparr>tailoredCV = Some (slice t 0 expStart @ join [LF] (loopLines st) @ drop expEnd t),
               distributionStats =
                 Some \<lparr>total = length ks, alreadyPresent = length ks - 5,
                       added = 5, missing = 0\<rparr>\<rparr>"
    if b2: "length bullets = 2" and c3': "cap = 3" and m5: "length ms = 5"
  proof -
    have p3: "perBullet = 3" by (simp add: per b2 m5 keywordsPerBulletOf_def)
    have "length ms \<le> length bullets * min (nat cap) perBullet"
      by (simp add: b2 c3' m5 p3)
    then show ?thesis using c7 m5 by simp
  qed
  have c9: "injectionOf p [k1] = str '', '' @ p @ str '' '' @ k1"
    and c10: "injectionOf p [k1, k2] = str '' '' @ p @ str '' '' @ k1 @ str '' and '' @ k2"
    and c11: "injectionOf p [k1, k2, k3] =
           str '' '' @ p @ str '' '' @ k1 @ str '', '' @ k2 @ str '', and '' @ k3"
    by (simp_all add: injectionOf_def jsSlice_def jsSliceFrom_def relativeIndex_def)
  have c12: "injectInto (line @ str ''.'') injection = line @ injection @ str ''.''"
    by (simp add: injectInto_def endsWith_def str_def)
  have c13: "\<not> endsWith line 46 \<longrightarrow> injectInto line injection = trimEnd line @ injection"
    by (simp add: injectInto_def)
  show ?thesis
    using c1 c2 c3 c4 ad ki c7 c8 c9 c10 c11 c12 c13 by blast
qed

theorem even_distribution_witness:
  "experienceLines asciiHost resume = Some (20, 72, resumeLines) \<and>
   bulletLinesOf resumeLines = [0, 1] \<and>
   (0::int) \<le> (case maxKeywordsPerBulletOpt defaults of None \<Rightarrow> 3 | Some k \<Rightarrow> k) \<and>
   missingKeywordsOf asciiHost resume keywords6 = missing5 \<and>
   length missing5 = 5 \<and>
   int (keywordsPerBulletOf 5 2) = \<lceil>real (5::nat) / real (2::nat)\<rceil> \<and>
   loopLines (bulletLoop countUp missing5 3 (keywordsPerBulletOf 5 2) [0, 1] state0) =
     [str ''- Built data pipelines leveraging python, kubernetes, and aws.'',
      str ''- Led the platform migration utilizing docker and terraform''] \<and>
   distributeHighPriorityKeywords asciiHost countUp (Some resume) (Some keywords6) defaults =
     \<lparr>tailoredCV = Some tailored5,
      distributionStats = Some \<lparr>total = 6, alreadyPresent = 1, added = 5, missing = 0\<rparr>\<rparr> \<and>
   missingKeywordsOf asciiHost resume keywords3 = keywords3 \<and>
   length keywords3 = 3 \<and>
   keywordsPerBulletOf 3 2 = 2 \<and>
   loopLines (bulletLoop countUp keywords3 3 (keywordsPerBulletOf 3 2) [0, 1] state0) =
     [str ''- Built data pipelines leveraging python and kubernetes.'',
      str ''- Led the platform migration, utilizing aws''] \<and>
   distributeHighPriorityKeywords asciiHost countUp (Some resume) (Some keywords3) defaults =
     \<lparr>tailoredCV = Some tailored3,
      distributionStats = Some \<lparr>total = 3, alreadyPresent = 0, added = 3, missing = 0\<rparr>\<rparr>"
proof -
  define stA where "stA = bulletLoop countUp missing5 3 (keywordsPerBulletOf 5 2) [0, 1]
       \<lparr>loopLines = resumeLines, keywordIndex = 0, loopAdded = 0, draws = 0\<rparr>"
  define stB where "stB = bulletLoop countUp keywords3 3 (keywordsPerBulletOf 3 2) [0, 1]
       \<lparr>loopLines = resumeLines, keywordIndex = 0, loopAdded = 0, draws = 0\<rparr>"
  have len5: "length missing5 = 5" by (simp add: missing5_def)
  have len6: "length keywords6 = 6" by (simp add: keywords6_def)
  have len3: "length keywords3 = 3" by (simp add: keywords3_def)
  have len2: "length [0::nat, 1] = 2" by simp
  have lenr: "length resumeLines = 2" by (simp add: resumeLines_def)
  have b1: "[0::nat, 1] \<noteq> []" by simp
  have m5: "missing5 \<noteq> []" by (simp add: missing5_def)
  have m3: "keywords3 \<noteq> []" by (simp add: keywords3_def)
  have cap: "(3::int) = (case maxKeywordsPerBulletOpt defaults of None \<Rightarrow> 3 | Some k \<Rightarrow> k)"
    by (simp add: defaults_def)
  have nn: "(0::int) \<le> 3" by simp
  have nn': "(0::int) \<le> (case maxKeywordsPerBulletOpt defaults of None \<Rightarrow> 3 | Some k \<Rightarrow> k)"
    by (simp add: defaults_def)
  have perA: "keywordsPerBulletOf 5 2 = keywordsPerBulletOf (length missing5) (length [0::nat, 1])"
    by (simp only: len5 len2)
  have perB: "keywordsPerBulletOf 3 2 = keywordsPerBulletOf (length keywords3) (length [0::nat, 1])"
    by (simp only: len3 len2)
  have p3: "keywordsPerBulletOf 5 2 = 3" by (simp add: keywordsPerBulletOf_def)
  have p2: "keywordsPerBulletOf 3 2 = 2" by (simp add: keywordsPerBulletOf_def)
  note A = even_distribution [where h = asciiHost and t = resume and ks = keywords6
      and options = defaults and rnd = countUp and bullets = "[0, 1]" and ms = missing5
      and cap = 3 and perBullet = "keywordsPerBulletOf 5 2" and st = stA,
      OF resume_lines resume_bullets[symmetric] b1 resume_missing6[symmetric] m5 cap nn perA
         stA_def]
  note B = even_distribution [where h = asciiHost and t = resume and ks = keywords3
      and options = defaults and rnd = countUp and bullets = "[0, 1]" and ms = keywords3
      and cap = 3 and perBullet = "keywordsPerBulletOf 3 2" and st = stB,
      OF resume_lines resume_bullets[symmetric] b1 resume_missing3[symmetric] m3 cap nn perB
         stB_def]
  have ceil: "int (keywordsPerBulletOf 5 2) = \<lceil>real (5::nat) / real (2::nat)\<rceil>"
    using A[THEN conjunct1] unfolding len5 len2 .
  note eachA = A[THEN conjunct2, THEN conjunct1, rule_format]
  note eachB = B[THEN conjunct2, THEN conjunct1, rule_format]
  have a0: "loopLines stA ! 0 = str ''- Built data pipelines leveraging python, kubernetes, and aws.''"
  proof -
    have "loopLines stA ! 0 = injectInto (resumeLines ! 0)
        (injectionOf (getPhrase countUp 0) (take 3 (drop 0 missing5)))"
      using eachA[of 0] unfolding Let_def p3 len5 by simp
    then show ?thesis by (simp only: inject5_first)
  qed
  have a1: "loopLines stA ! 1 = str ''- Led the platform migration utilizing docker and terraform''"
  proof -
    have "loopLines stA ! 1 = injectInto (resumeLines ! 1)
        (injectionOf (getPhrase countUp 1) (take 2 (drop 3 missing5)))"
      using eachA[of 1] unfolding Let_def p3 len5 by simp
    then show ?thesis by (simp only: inject5_second)
  qed
  have "length (loopLines stA) = length resumeLines"
    using A[THEN conjunct2, THEN conjunct2, THEN conjunct1] .
  then have "length (loopLines stA) = 2" by (simp only: lenr)
  then have "loopLines stA = [loopLines stA ! 0, loopLines stA ! 1]" by (rule list2_nth)
  then have lsA: "loopLines stA =
     [str ''- Built data pipelines leveraging python, kubernetes, and aws.'',
      str ''- Led the platform migration utilizing docker and terraform'']"
    by (simp only: a0 a1)
  have enoughA: "length missing5 \<le> length [0::nat, 1] * min (nat 3) (keywordsPerBulletOf 5 2)"
    unfolding len5 len2 p3 by simp
  have "distributeHighPriorityKeywords asciiHost countUp (Some resume) (Some keywords6) defaults =
              \<lparr>tailoredCV = Some (slice resume 0 20 @ join [LF] (loopLines stA) @ drop 72 resume),
               distributionStats =
                 Some \<lparr>total = length keywords6, alreadyPresent = length keywords6 - length missing5,
                       added = length missing5, missing = 0\<rparr>\<rparr>"
    using A[THEN conjunct2, THEN conjunct2, THEN conjunct2, THEN conjunct2, THEN conjunct2,
        THEN conjunct2, THEN conjunct1] enoughA by blast
  then have runA: "distributeHighPriorityKeywords asciiHost countUp (Some resume) (Some keywords6)
       defaults =
     \<lparr>tailoredCV = Some tailored5,
      distributionStats = Some \<lparr>total = 6, alreadyPresent = 1, added = 5, missing = 0\<rparr>\<rparr>"
    by (simp only: lsA resume_reassembled5 len6 len5) simp
  have b0: "loopLines stB ! 0 = str ''- Built data pipelines leveraging python and kubernetes.''"
  proof -
    have "loopLines stB ! 0 = injectInto (resumeLines ! 0)
        (injectionOf (getPhrase countUp 0) (take 2 (drop 0 keywords3)))"
      using eachB[of 0] unfolding Let_def p2 len3 by simp
    then show ?thesis by (simp only: inject3_first)
  qed
  have b1': "loopLines stB ! 1 = str ''- Led the platform migration, utilizing aws''"
  proof -
    have "loopLines stB ! 1 = injectInto (resumeLines ! 1)
        (injectionOf (getPhrase countUp 1) (take 1 (drop 2 keywords3)))"
      using eachB[of 1] unfolding Let_def p2 len3 by simp
    then show ?thesis by (simp only: inject3_second)
  qed
  have "length (loopLines stB) = length resumeLines"
    using B[THEN conjunct2, THEN conjunct2, THEN conjunct1] .
  then have "length (loopLines stB) = 2" by (simp only: lenr)
  then have "loopLines stB = [loopLines stB ! 0, loopLines stB ! 1]" by (rule list2_nth)
  then have lsB: "loopLines stB =
     [str ''- Built data pipelines leveraging python and kubernetes.'',
      str ''- Led the platform migration, utilizing aws'']"
    by (simp only: b0 b1')
  have enoughB: "length keywords3 \<le> length [0::nat, 1] * min (nat 3) (keywordsPerBulletOf 3 2)"
    unfolding len3 len2 p2 by simp
  have "distributeHighPriorityKeywords asciiHost countUp (Some resume) (Some keywords3) defaults =
              \<lparr>tailoredCV = Some (slice resume 0 20 @ join [LF] (loopLines stB) @ drop 72 resume),
               distributionStats =
                 Some \<lparr>total = length keywords3, alreadyPresent = length keywords3 - length keywords3,
                       added = length keywords3, missing = 0\<rparr>\<rparr>"
    using B[THEN conjunct2, THEN conjunct2, THEN conjunct2, THEN conjunct2, THEN conjunct2,
        THEN conjunct2, THEN conjunct1] enoughB by blast
  then have runB: "distributeHighPriorityKeywords asciiHost countUp (Some resume) (Some keywords3)
       defaults =
     \<lparr>tailoredCV = Some tailored3,
      distributionStats = Some \<lparr>total = 3, alreadyPresent = 0, added = 3, missing = 0\<rparr>\<rparr>"
    by (simp only: lsB resume_reassembled3 len3) simp
  show ?thesis
    using resume_lines[of asciiHost] resume_bullets nn' resume_missing6[of asciiHost] len5 ceil
      lsA runA resume_missing3[of asciiHost] len3 p2 lsB runB
    unfolding stA_def stB_def state0_def by (intro conjI)
qed



text \<open>
  C9. When no experience heading matches, or one matches and its section has no bullet
  line, a run on a text and a keyword list that are not empty returns the text as it is,
  with \<open>added = 0\<close> and \<open>missing\<close> the number of keywords that are not present in the text.
  It returns a value: nothing is raised. A keyword is present when the expression built
  from it matches in the text in small letters, without regard to case, for the letters
  of the host as well: with the letters of Latin-1, the keyword in capitals is present in
  the text in small letters, and the keyword with a long s is missing from the text with
  an s.
\<close>

theorem no_section_or_no_bullets_unchanged:
  assumes "t \<noteq> []" and "ks \<noteq> []"
    and "experienceLines h t = None \<or>
         (\<exists>expStart expEnd ls. experienceLines h t = Some (expStart, expEnd, ls) \<and>
            bulletLinesOf ls = [])"
  shows "distributeHighPriorityKeywords h rnd (Some t) (Some ks) options =
           \<lparr>tailoredCV = Some t,
            distributionStats =
              Some \<lparr>total = length ks,
                    alreadyPresent = length ks - length (missingKeywordsOf h t ks),
                    added = 0,
                    missing = length (missingKeywordsOf h t ks)\<rparr>\<rparr> \<and>
         missingKeywordsOf h t ks =
           filter (\<lambda>kw. \<not> keywordPresent h (toLowerCase h t) kw) ks"
proof -
  define cap where "cap = (case maxKeywordsPerBulletOpt options of None \<Rightarrow> 3 | Some k \<Rightarrow> k)"
  define ms where "ms = missingKeywordsOf h t ks"
  have r: "distributeHighPriorityKeywords h rnd (Some t) (Some ks) options
      = distributeText h rnd t ks cap"
    using assms by (simp add: distributeHighPriorityKeywords_def cap_def)
  have cnt: "length (presentKeywordsOf h t ks) = length ks - length ms"
    using present_missing_count[of h t ks] by (simp add: ms_def)
  have run: "distributeHighPriorityKeywords h rnd (Some t) (Some ks) options =
           \<lparr>tailoredCV = Some t,
            distributionStats =
              Some \<lparr>total = length ks,
                    alreadyPresent = length ks - length ms,
                    added = 0,
                    missing = length ms\<rparr>\<rparr>"
  proof (cases "length ms = 0")
    case True
    then show ?thesis
      using cnt by (simp add: r distributeText_def Let_def ms_def[symmetric])
  next
    case nz: False
    from assms(3) show ?thesis
    proof
      assume "experienceLines h t = None"
      then show ?thesis
        using nz cnt by (simp add: r distributeText_def Let_def ms_def[symmetric])
    next
      assume "\<exists>expStart expEnd ls. experienceLines h t = Some (expStart, expEnd, ls) \<and>
            bulletLinesOf ls = []"
      then obtain expStart expEnd ls where "experienceLines h t = Some (expStart, expEnd, ls)"
        and "bulletLinesOf ls = []" by blast
      then show ?thesis
        using nz cnt by (simp add: r distributeText_def Let_def ms_def[symmetric])
    qed
  qed
  show ?thesis
    using run unfolding ms_def by (simp add: missingKeywordsOf_def)
qed

theorem no_section_or_no_bullets_unchanged_witness:
  "experienceLines asciiHost noHeadingResume = None \<and>
   distributeHighPriorityKeywords asciiHost countUp (Some noHeadingResume) (Some keywords6)
       defaults =
     \<lparr>tailoredCV = Some noHeadingResume,
      distributionStats = Some \<lparr>total = 6, alreadyPresent = 1, added = 0, missing = 5\<rparr>\<rparr> \<and>
   experienceLines asciiHost plainResume
     = Some (20, 50, [str ''Built data pipelines with SQL'', []]) \<and>
   bulletLinesOf [str ''Built data pipelines with SQL'', []] = [] \<and>
   distributeHighPriorityKeywords asciiHost countUp (Some plainResume) (Some keywords6)
       defaults =
     \<lparr>tailoredCV = Some plainResume,
      distributionStats = Some \<lparr>total = 6, alreadyPresent = 1, added = 0, missing = 5\<rparr>\<rparr> \<and>
   experienceLines latin1Host accentText = None \<and>
   distributeHighPriorityKeywords latin1Host countUp (Some accentText) (Some [accentKeyword])
       defaults =
     \<lparr>tailoredCV = Some accentText,
      distributionStats = Some \<lparr>total = 1, alreadyPresent = 1, added = 0, missing = 0\<rparr>\<rparr> \<and>
   experienceLines latin1Host longSText = None \<and>
   distributeHighPriorityKeywords latin1Host countUp (Some longSText) (Some [longSKeyword])
       defaults =
     \<lparr>tailoredCV = Some longSText,
      distributionStats = Some \<lparr>total = 1, alreadyPresent = 0, added = 0, missing = 1\<rparr>\<rparr>"
proof -
  have kn: "keywords6 \<noteq> []" by (simp add: keywords6_def)
  have an: "[accentKeyword] \<noteq> []" by simp
  have n1: "noHeadingResume \<noteq> []" by (simp add: noHeadingResume_def str_def)
  have n2: "plainResume \<noteq> []" by (simp add: plainResume_def str_def)
  have n3: "accentText \<noteq> []" by (simp add: accentText_def str_def)
  have len5: "length missing5 = 5" by (simp add: missing5_def)
  have len6: "length keywords6 = 6" by (simp add: keywords6_def)
  have a: "distributeHighPriorityKeywords asciiHost countUp (Some noHeadingResume)
       (Some keywords6) defaults =
     \<lparr>tailoredCV = Some noHeadingResume,
      distributionStats = Some \<lparr>total = 6, alreadyPresent = 1, added = 0, missing = 5\<rparr>\<rparr>"
    using no_section_or_no_bullets_unchanged [OF n1 kn, of asciiHost countUp defaults,
        THEN conjunct1] noHeading_lines
    by (simp add: noHeading_missing len5 len6)
  have b: "distributeHighPriorityKeywords asciiHost countUp (Some plainResume)
       (Some keywords6) defaults =
     \<lparr>tailoredCV = Some plainResume,
      distributionStats = Some \<lparr>total = 6, alreadyPresent = 1, added = 0, missing = 5\<rparr>\<rparr>"
    using no_section_or_no_bullets_unchanged [OF n2 kn, of asciiHost countUp defaults,
        THEN conjunct1] plain_lines plain_bullets
    by (simp add: plain_missing len5 len6)
  have c: "distributeHighPriorityKeywords latin1Host countUp (Some accentText)
       (Some [accentKeyword]) defaults =
     \<lparr>tailoredCV = Some accentText,
      distributionStats = Some \<lparr>total = 1, alreadyPresent = 1, added = 0, missing = 0\<rparr>\<rparr>"
    using no_section_or_no_bullets_unchanged [OF n3 an, of latin1Host countUp defaults,
        THEN conjunct1] accent_lines
    by (simp add: accent_present)
  have sn: "[longSKeyword] \<noteq> []" by simp
  have n4: "longSText \<noteq> []" by (simp add: longSText_def str_def)
  have d: "distributeHighPriorityKeywords latin1Host countUp (Some longSText)
       (Some [longSKeyword]) defaults =
     \<lparr>tailoredCV = Some longSText,
      distributionStats = Some \<lparr>total = 1, alreadyPresent = 0, added = 0, missing = 1\<rparr>\<rparr>"
    using no_section_or_no_bullets_unchanged [OF n4 sn, of latin1Host countUp defaults,
        THEN conjunct1] longS_lines
    by (simp add: longS_missing)
  show ?thesis
    using noHeading_lines a plain_lines plain_bullets b accent_lines c longS_lines d
    by (intro conjI)
qed

text \<open>
  C10. When the text is absent or empty, or the keyword list is absent or empty, the run
  returns the text it was given and the empty statistics object, which has none of the
  fields \<open>total\<close>, \<open>alreadyPresent\<close>, \<open>added\<close>, \<open>missing\<close>.
\<close>

theorem empty_input_gives_empty_stats:
  assumes "cvText = None \<or> cvText = Some [] \<or> allKeywords = None \<or> allKeywords = Some []"
  shows "distributeHighPriorityKeywords h rnd cvText allKeywords options =
           \<lparr>tailoredCV = cvText, distributionStats = None\<rparr>"
  using assms
  by (auto simp: distributeHighPriorityKeywords_def Let_def split: option.splits)

theorem empty_input_gives_empty_stats_witness:
  "distributeHighPriorityKeywords asciiHost countUp (Some []) (Some keywords6) defaults =
     \<lparr>tailoredCV = Some [], distributionStats = None\<rparr> \<and>
   distributeHighPriorityKeywords asciiHost countUp None (Some keywords6) defaults =
     \<lparr>tailoredCV = None, distributionStats = None\<rparr> \<and>
   distributeHighPriorityKeywords asciiHost countUp (Some resume) (Some []) defaults =
     \<lparr>tailoredCV = Some resume, distributionStats = None\<rparr> \<and>
   distributeHighPriorityKeywords asciiHost countUp (Some resume) None defaults =
     \<lparr>tailoredCV = Some resume, distributionStats = None\<rparr>"
  using empty_input_gives_empty_stats [of "Some []" "Some keywords6" asciiHost countUp defaults]
    empty_input_gives_empty_stats [of None "Some keywords6" asciiHost countUp defaults]
    empty_input_gives_empty_stats [of "Some resume" "Some []" asciiHost countUp defaults]
    empty_input_gives_empty_stats [of "Some resume" None asciiHost countUp defaults]
  by simp

end
